theory Spec2Isabelle
  imports Main "HOL-Library.Sublist" "HOL-Library.List_Lexorder"
begin

section \<open>Python values\<close>

text \<open>
  A Python \<open>str\<close> is a sequence of Unicode code points, so a string is a list of
  natural numbers here. \<open>lit\<close> turns an ASCII literal into such a list; a
  character beyond ASCII is written as its code point (\<open>237\<close> for the
  i-acute of "dias").
\<close>

type_synonym pystr = "nat list"

definition lit :: "string \<Rightarrow> pystr" where
  "lit s = map of_char s"

text \<open>The exceptions the modelled functions can raise.\<close>

datatype py_error = IndexError | TypeError | ValueError | AttributeError

text \<open>\<open>s.startswith(p)\<close>.\<close>

definition startswith :: "pystr \<Rightarrow> pystr \<Rightarrow> bool" where
  "startswith p s = (take (length p) s = p)"

text \<open>\<open>needle in hay\<close> on strings: a case-sensitive search for a contiguous run.\<close>

fun py_in :: "pystr \<Rightarrow> pystr \<Rightarrow> bool" where
  "py_in needle [] = (needle = [])"
| "py_in needle (c # cs) = (startswith needle (c # cs) \<or> py_in needle cs)"

text \<open>
  \<open>c.isspace()\<close>: the code points Python counts as whitespace, which
  \<open>str.strip()\<close> removes from both ends.
\<close>

definition py_isspace :: "nat \<Rightarrow> bool" where
  "py_isspace c =
     ((9 \<le> c \<and> c \<le> 13) \<or> (28 \<le> c \<and> c \<le> 32) \<or> c = 133 \<or> c = 160 \<or> c = 5760
      \<or> (8192 \<le> c \<and> c \<le> 8202) \<or> c = 8232 \<or> c = 8233 \<or> c = 8239 \<or> c = 8287
      \<or> c = 12288)"

definition strip :: "pystr \<Rightarrow> pystr" where
  "strip s = rev (dropWhile py_isspace (rev (dropWhile py_isspace s)))"

text \<open>\<open>str(n)\<close> for an integer: its decimal digits, with a sign when negative.\<close>

fun digits :: "nat \<Rightarrow> pystr" where
  "digits n = (if n < 10 then [48 + n] else digits (n div 10) @ [48 + n mod 10])"

declare digits.simps [simp del]

definition py_str_int :: "int \<Rightarrow> pystr" where
  "py_str_int i = (if i < 0 then 45 # digits (nat (- i)) else digits (nat i))"

text \<open>\<open>s.split(sep)\<close> for a separator of one character.\<close>

fun split_on :: "nat \<Rightarrow> pystr \<Rightarrow> pystr list" where
  "split_on sep [] = [[]]"
| "split_on sep (c # cs) =
     (if c = sep then [] # split_on sep cs
      else (case split_on sep cs of
              [] \<Rightarrow> [[c]]
            | piece # pieces \<Rightarrow> (c # piece) # pieces))"

text \<open>
  \<open>s.split(sep, 1)\<close> when \<open>sep\<close> occurs in \<open>s\<close>: the text before its
  first occurrence and the text after it.
\<close>

definition split_first :: "nat \<Rightarrow> pystr \<Rightarrow> pystr \<times> pystr" where
  "split_first sep s = (takeWhile (\<lambda>c. c \<noteq> sep) s, drop 1 (dropWhile (\<lambda>c. c \<noteq> sep) s))"

section \<open>The process state and its effects\<close>

text \<open>
  One entry of \<open>data_cache\<close>: the dictionary stored under a publication id. The
  fields are the dictionary's keys, prefixed with \<open>cache_\<close>.
\<close>

record pub_data =
  cache_row :: "pystr list"
  cache_pdf_url :: pystr
  cache_description :: pystr
  cache_published_date :: pystr
  cache_expires_date :: pystr
  cache_status :: pystr

text \<open>
  \<open>InlineKeyboardButton(label, callback_data=...)\<close> is a pair, and an
  \<open>InlineKeyboardMarkup\<close> is the list of its rows of buttons.
\<close>

type_synonym button = "pystr \<times> pystr"

type_synonym markup = "button list list"

text \<open>
  One call of \<open>application.bot.send_message\<close>: the chat it went to, its text, the
  reply markup if one was passed, and whether the call returned (\<open>True\<close>) or raised.
\<close>

record attempt =
  chat_id :: int
  sent_text :: pystr
  reply_markup :: "markup option"
  delivered :: bool

text \<open>
  The three globals of the module (\<open>subscribers\<close>, \<open>previous_publications\<close>,
  \<open>data_cache\<close>) and the two traces of what the process did to the outside:
  the messages given to \<open>logger.error\<close> and the send calls made.
\<close>

record world =
  subscribers :: "int set"
  previous_publications :: "pystr set"
  data_cache :: "pystr \<rightharpoonup> pub_data"
  logged :: "pystr list"
  outbox :: "attempt list"

section \<open>The page\<close>

text \<open>
  What the BeautifulSoup queries of \<open>scrape_page\<close> return on a parsed page. A cell
  is one element of \<open>row.find_all('td')\<close>: its \<open>.text\<close>, and the \<open>href\<close> of the
  first anchor with an \<open>href\<close> inside it (\<open>None\<close> when \<open>find('a', href=True)\<close>
  finds nothing). A row is the list of its cells, a body the list
  \<open>tbody.find_all('tr')\<close>; the table is \<open>soup.find('table', id=...)\<close> and its body
  \<open>table.find('tbody')\<close>, each of which may be \<open>None\<close>.
\<close>

record td =
  cell_text :: pystr
  a_href :: "pystr option"

datatype tbody = TBody "td list list"

datatype table = Table "tbody option"

datatype soup = Soup "table option"

text \<open>
  What the request of one cycle gives: an exception (with its message) from
  \<open>session.get\<close> or \<open>response.text()\<close>, or the page.
\<close>

datatype response = FetchError pystr | Body soup

definition url :: pystr where
  "url = lit ''https://sistemas.undc.edu.pe/bienesyservicios/''"

section \<open>scrape_page\<close>

text \<open>
  The body of the loop over the rows, for a row that has six cells or more. Lines 89
  to 95 give the link, with the standard library's \<open>urljoin\<close> a parameter; lines
  86 and 98 the list \<open>cols_text\<close>, which is the record of the row; lines 103 to
  110 the dictionary stored in the cache. The reads \<open>cols[2]\<close> and
  \<open>cols_text[0..5]\<close> are in range behind the \<open>len(cols) < 6\<close> guard.
\<close>

definition pdf_link_of :: "(pystr \<Rightarrow> pystr \<Rightarrow> pystr) \<Rightarrow> td list \<Rightarrow> pystr" where
  "pdf_link_of urljoin cols =
     (case a_href (cols ! 2) of
        None \<Rightarrow> lit ''No disponible''
      | Some h \<Rightarrow> if startswith (lit ''http'') h then h else urljoin url h)"

definition cols_text_of :: "(pystr \<Rightarrow> pystr \<Rightarrow> pystr) \<Rightarrow> td list \<Rightarrow> pystr list" where
  "cols_text_of urljoin cols =
     map (\<lambda>ele. strip (cell_text ele)) cols @ [pdf_link_of urljoin cols]"

definition cache_entry :: "pystr list \<Rightarrow> pystr \<Rightarrow> pub_data" where
  "cache_entry cols_text pdf_link =
     \<lparr>cache_row = cols_text, cache_pdf_url = pdf_link,
      cache_description = cols_text ! 1, cache_published_date = cols_text ! 3,
      cache_expires_date = cols_text ! 4, cache_status = cols_text ! 5\<rparr>"

text \<open>
  The loop, with the list \<open>data\<close> and the dictionary \<open>data_cache\<close> it appends to.
\<close>

fun scrape_rows ::
  "(pystr \<Rightarrow> pystr \<Rightarrow> pystr) \<Rightarrow> td list list \<Rightarrow> pystr list list \<Rightarrow> (pystr \<rightharpoonup> pub_data)
     \<Rightarrow> pystr list list \<times> (pystr \<rightharpoonup> pub_data)" where
  "scrape_rows urljoin [] data cache = (data, cache)"
| "scrape_rows urljoin (cols # rows) data cache =
     (if length cols < 6 then scrape_rows urljoin rows data cache
      else
        (let cols_text = cols_text_of urljoin cols;
             pub_id = cols_text ! 0
         in scrape_rows urljoin rows (data @ [cols_text])
              (cache(pub_id \<mapsto> cache_entry cols_text (pdf_link_of urljoin cols)))))"

definition log_error :: "pystr \<Rightarrow> world \<Rightarrow> world" where
  "log_error msg w = w\<lparr>logged := logged w @ [msg]\<rparr>"

text \<open>
  \<open>scrape_page\<close> returns the list \<open>data\<close> and leaves the world changed: the cache
  is emptied first, before the request is made.
\<close>

definition scrape_page ::
  "(pystr \<Rightarrow> pystr \<Rightarrow> pystr) \<Rightarrow> response \<Rightarrow> world \<Rightarrow> pystr list list \<times> world" where
  "scrape_page urljoin resp w =
     (let w0 = w\<lparr>data_cache := Map.empty\<rparr> in
      case resp of
        FetchError e \<Rightarrow>
          ([], log_error (lit ''Error al obtener la p'' @ [225] @ lit ''gina: '' @ e) w0)
      | Body (Soup None) \<Rightarrow>
          ([], log_error (lit ''No se encontr'' @ [243] @ lit '' la tabla de publicaciones.'') w0)
      | Body (Soup (Some (Table None))) \<Rightarrow>
          ([], log_error
                 (lit ''No se encontr'' @ [243] @ lit '' el cuerpo de la tabla de publicaciones.'') w0)
      | Body (Soup (Some (Table (Some (TBody rows))))) \<Rightarrow>
          (let (data, cache) = scrape_rows urljoin rows [] Map.empty
           in (data, w0\<lparr>data_cache := cache\<rparr>)))"

section \<open>filter_vigente\<close>

text \<open>
  The comprehension reads \<open>row[5]\<close> of every row in order, so a row with fewer than
  six fields raises \<open>IndexError\<close>.
\<close>

fun filter_vigente :: "pystr list list \<Rightarrow> py_error + pystr list list" where
  "filter_vigente [] = Inr []"
| "filter_vigente (row # data) =
     (if length row < 6 then Inl IndexError
      else (case filter_vigente data of
              Inl e \<Rightarrow> Inl e
            | Inr vigente_data \<Rightarrow>
                Inr (if py_in (lit ''Vigente'') (row ! 5) then row # vigente_data
                     else vigente_data)))"

section \<open>format_single_publication\<close>

text \<open>
  A \<open>datetime\<close>: its wall-clock reading, in microseconds since the first instant
  of year 1, and its offset from UTC when it is timezone-aware (\<open>None\<close> for a
  naive one). \<open>dateparser.parse\<close> is a
  parameter \<open>parse\<close>: it gives \<open>None\<close> for a text it cannot read and a datetime
  otherwise, an aware one when the text names a time zone. \<open>datetime.now()\<close> is
  naive; its reading is the parameter \<open>now\<close>.
\<close>

record datetime =
  wall_us :: int
  utcoffset :: "int option"

text \<open>
  Lines 124 to 133. Subtracting the naive \<open>datetime.now()\<close> from an aware datetime
  raises \<open>TypeError\<close>. A \<open>timedelta\<close> is a number of microseconds;
  \<open>total_seconds() < 0\<close> holds when it is negative, \<open>.days\<close> is its quotient by
  a day and \<open>.seconds\<close> the whole seconds of the remainder.
\<close>

definition available_time :: "datetime option \<Rightarrow> int \<Rightarrow> py_error + pystr" where
  "available_time expires_date now =
     (case expires_date of
        None \<Rightarrow> Inr (lit ''Desconocido'')
      | Some d \<Rightarrow>
          (case utcoffset d of
             Some off \<Rightarrow> Inl TypeError
           | None \<Rightarrow>
               (let delta0 = wall_us d - now;
                    delta = (if delta0 < 0 then 0 else delta0);
                    days = delta div 86400000000;
                    seconds = (delta mod 86400000000) div 1000000;
                    hours = seconds div 3600;
                    remainder = seconds mod 3600;
                    minutes = remainder div 60
                in Inr (py_str_int days @ lit '' d'' @ [237] @ lit ''as, '' @ py_str_int hours
                        @ lit '' horas, '' @ py_str_int minutes @ lit '' minutos''))))"

text \<open>Lines 135 to 149: the text of the message, given the available time.\<close>

definition message_text :: "pystr list \<Rightarrow> pystr \<Rightarrow> pystr" where
  "message_text row avail =
     [128226] @ lit '' <b>Publicaci'' @ [243] @ lit ''n #'' @ row ! 0 @ lit ''</b>'' @ [10]
     @ [128221] @ lit '' <b>Descripci'' @ [243] @ lit ''n:</b>'' @ [10] @ row ! 1 @ [10, 10]
     @ (if row ! 6 \<noteq> lit ''No disponible''
        then [128196] @ lit '' <b>PDF:</b> Disponible para descargar'' @ [10]
        else [128196] @ lit '' <b>PDF:</b> No disponible'' @ [10])
     @ [128197] @ lit '' <b>Publicado:</b> '' @ row ! 3 @ [10]
     @ [9203] @ lit '' <b>Vence:</b> '' @ row ! 4 @ [10]
     @ [9201] @ lit '' <b>Tiempo disponible:</b> '' @ avail @ [10]
     @ [128465] @ lit '' <b>Estado:</b> '' @ row ! 5 @ [10]"

text \<open>Lines 152 to 157: the buttons.\<close>

definition buttons_of :: "pystr list \<Rightarrow> button list" where
  "buttons_of row =
     (if row ! 6 \<noteq> lit ''No disponible''
      then [(lit ''PDF Original'', lit ''download_'' @ row ! 0)] else [])
     @ [(lit ''PDF de la Publicaci'' @ [243] @ lit ''n'', lit ''sharepdf_'' @ row ! 0),
        (lit ''Agregar al Calendario'', lit ''calendar_'' @ row ! 0)]"

text \<open>
  The function reads \<open>row[6]\<close> first, so a row with fewer than seven fields raises
  \<open>IndexError\<close>; the other reads are below index 6. \<open>pdf_url\<close> is \<open>row[6]\<close>.
\<close>

definition format_single_publication ::
  "(pystr \<Rightarrow> datetime option) \<Rightarrow> int \<Rightarrow> pystr list \<Rightarrow> py_error + (pystr \<times> markup)" where
  "format_single_publication parse now row =
     (if length row < 7 then Inl IndexError
      else
        (let published_date = parse (row ! 3);
             expires_date = parse (row ! 4)
         in case available_time expires_date now of
              Inl e \<Rightarrow> Inl e
            | Inr avail \<Rightarrow> Inr (message_text row avail, [buttons_of row])))"

section \<open>subscribe and unsubscribe\<close>




section \<open>convert_drive_url\<close>

text \<open>
  \<open>urllib.parse.urlparse\<close> and \<open>parse_qs\<close> of the standard library, as CPython
  3.12 computes them on a \<open>str\<close>: leading control characters and spaces are
  dropped, tabs and line breaks removed, then the scheme, the network location after
  \<open>//\<close>, the fragment, the query and the parameters of the last path segment are
  cut off in this order. A host with one bracket and not the other raises
  \<open>ValueError\<close>. The library's further checks of a bracketed host (that it is an
  IP literal) and of a host beyond ASCII (its normal form) are not part of the model.
\<close>

record parse_result =
  url_scheme :: pystr
  url_netloc :: pystr
  url_path :: pystr
  url_params :: pystr
  url_query :: pystr
  url_fragment :: pystr

definition ascii_alpha :: "nat \<Rightarrow> bool" where
  "ascii_alpha c = ((97 \<le> c \<and> c \<le> 122) \<or> (65 \<le> c \<and> c \<le> 90))"

definition scheme_char :: "nat \<Rightarrow> bool" where
  "scheme_char c = (ascii_alpha c \<or> (48 \<le> c \<and> c \<le> 57) \<or> c = 43 \<or> c = 45 \<or> c = 46)"

definition ascii_lower :: "pystr \<Rightarrow> pystr" where
  "ascii_lower s = map (\<lambda>c. if 65 \<le> c \<and> c \<le> 90 then c + 32 else c) s"

definition split_scheme :: "pystr \<Rightarrow> pystr \<times> pystr" where
  "split_scheme u =
     (let head = takeWhile (\<lambda>c. c \<noteq> 58) u
      in if 58 \<in> set u \<and> head \<noteq> [] \<and> ascii_alpha (hd head) \<and> list_all scheme_char head
         then (ascii_lower head, drop (length head + 1) u)
         else ([], u))"

definition uses_params :: "pystr list" where
  "uses_params =
     [[], lit ''ftp'', lit ''hdl'', lit ''prospero'', lit ''http'', lit ''imap'', lit ''https'',
      lit ''shttp'', lit ''rtsp'', lit ''rtspu'', lit ''sip'', lit ''sips'', lit ''mms'',
      lit ''sftp'', lit ''tel'']"

definition splitparams :: "pystr \<Rightarrow> pystr \<times> pystr" where
  "splitparams u =
     (let last_segment = rev (takeWhile (\<lambda>c. c \<noteq> 47) (rev u));
          front = take (length u - length last_segment) u
      in if 59 \<in> set last_segment
         then (front @ takeWhile (\<lambda>c. c \<noteq> 59) last_segment,
               drop 1 (dropWhile (\<lambda>c. c \<noteq> 59) last_segment))
         else (u, []))"

definition urlparse :: "pystr \<Rightarrow> py_error + parse_result" where
  "urlparse u =
     (let u1 = dropWhile (\<lambda>c. c \<le> 32) u;
          u2 = filter (\<lambda>c. c \<noteq> 9 \<and> c \<noteq> 10 \<and> c \<noteq> 13) u1;
          (scheme, u3) = split_scheme u2;
          (netloc, u4) =
            (if take 2 u3 = [47, 47]
             then (takeWhile (\<lambda>c. c \<noteq> 47 \<and> c \<noteq> 63 \<and> c \<noteq> 35) (drop 2 u3),
                   dropWhile (\<lambda>c. c \<noteq> 47 \<and> c \<noteq> 63 \<and> c \<noteq> 35) (drop 2 u3))
             else ([], u3))
      in if (91 \<in> set netloc) \<noteq> (93 \<in> set netloc) then Inl ValueError
         else
           (let (u5, fragment) = (if 35 \<in> set u4 then split_first 35 u4 else (u4, []));
                (u6, query) = (if 63 \<in> set u5 then split_first 63 u5 else (u5, []));
                (path, params) =
                  (if scheme \<in> set uses_params \<and> 59 \<in> set u6 then splitparams u6
                   else (u6, []))
            in Inr \<lparr>url_scheme = scheme, url_netloc = netloc, url_path = path,
                     url_params = params, url_query = query, url_fragment = fragment\<rparr>))"

text \<open>
  \<open>parse_qsl\<close> with its defaults: the fields between \<open>&\<close>, those without
  \<open>=\<close> or with nothing after it left out, \<open>+\<close> read as a space, and the
  percent-decoding \<open>unquote\<close> of the library, a parameter here.
  \<open>parse_qs(q).get(k, [None])[0]\<close> is then the value of the first pair named \<open>k\<close>.
\<close>

definition plus_to_space :: "pystr \<Rightarrow> pystr" where
  "plus_to_space s = map (\<lambda>c. if c = 43 then 32 else c) s"

definition parse_qsl :: "(pystr \<Rightarrow> pystr) \<Rightarrow> pystr \<Rightarrow> (pystr \<times> pystr) list" where
  "parse_qsl unquote qs =
     concat (map (\<lambda>name_value.
                    if name_value = [] \<or> 61 \<notin> set name_value then []
                    else (let (name, val) = split_first 61 name_value
                          in if val = [] then []
                             else [(unquote (plus_to_space name), unquote (plus_to_space val))]))
                 (split_on 38 qs))"

text \<open>\<open>xs[i]\<close> for an index that is not negative.\<close>

definition py_index :: "'a list \<Rightarrow> nat \<Rightarrow> py_error + 'a" where
  "py_index xs i = (if i < length xs then Inr (xs ! i) else Inl IndexError)"

definition convert_drive_url :: "(pystr \<Rightarrow> pystr) \<Rightarrow> pystr \<Rightarrow> py_error + pystr" where
  "convert_drive_url unquote u =
     (case urlparse u of
        Inl e \<Rightarrow> Inl e
      | Inr parsed_url \<Rightarrow>
          if py_in (lit ''drive.google.com'') (url_netloc parsed_url) then
            (case (if py_in (lit ''/file/d/'') (url_path parsed_url)
                   then map_sum id Some (py_index (split_on 47 (url_path parsed_url)) 3)
                   else if py_in (lit ''/open'') (url_path parsed_url)
                   then Inr (map_of (parse_qsl unquote (url_query parsed_url)) (lit ''id''))
                   else Inr None) of
               Inl e \<Rightarrow> Inl e
             | Inr None \<Rightarrow> Inr u
             | Inr (Some file_id) \<Rightarrow>
                 if file_id \<noteq> []
                 then Inr (lit ''https://drive.google.com/uc?export=download&id='' @ file_id)
                 else Inr u)
          else Inr u)"

section \<open>check_for_new_publications\<close>

text \<open>
  What one cycle takes from outside the module: the library's \<open>urljoin\<close>, the
  outcome of the request, \<open>dateparser.parse\<close>, the reading of the clock when a
  publication is formatted, the order in which Python enumerates the set of new ids
  and the set of subscribers, and the outcome of each send call. A send call is
  named by its position among the calls made so far, its chat, its text and its
  markup; it returns (\<open>None\<close>) or raises an exception with a message.
\<close>

record env =
  env_urljoin :: "pystr \<Rightarrow> pystr \<Rightarrow> pystr"
  env_response :: response
  env_parse :: "pystr \<Rightarrow> datetime option"
  env_now :: "pystr \<Rightarrow> int"
  env_iter_pubs :: "pystr set \<Rightarrow> pystr list"
  env_iter_users :: "int set \<Rightarrow> int list"
  env_send :: "nat \<Rightarrow> int \<Rightarrow> pystr \<Rightarrow> markup option \<Rightarrow> pystr option"

text \<open>
  Lines 338 to 341: the new ids, and the value of \<open>previous_publications\<close>
  afterwards.
\<close>

definition detect_new :: "pystr set \<Rightarrow> pystr set \<Rightarrow> pystr set \<times> pystr set" where
  "detect_new current_publications previous =
     (let new_publications = current_publications - previous
      in (new_publications,
          if new_publications \<noteq> {} then current_publications else previous))"

text \<open>\<open>row[0] for row in vigente_data\<close>.\<close>

fun row_ids :: "pystr list list \<Rightarrow> py_error + pystr list" where
  "row_ids [] = Inr []"
| "row_ids (row # rows) =
     (case row of
        [] \<Rightarrow> Inl IndexError
      | pub_id # rest \<Rightarrow>
          (case row_ids rows of Inl e \<Rightarrow> Inl e | Inr ids \<Rightarrow> Inr (pub_id # ids)))"

text \<open>\<open>next((row for row in vigente_data if row[0] == pub_id), None)\<close>.\<close>

fun next_row :: "pystr \<Rightarrow> pystr list list \<Rightarrow> py_error + pystr list option" where
  "next_row pub_id [] = Inr None"
| "next_row pub_id (row # rows) =
     (case row of
        [] \<Rightarrow> Inl IndexError
      | first # rest \<Rightarrow> if first = pub_id then Inr (Some row) else next_row pub_id rows)"

definition banner :: pystr where
  "banner = [161] @ lit ''Nueva publicaci'' @ [243] @ lit ''n disponible!''"

definition send_message ::
  "env \<Rightarrow> int \<Rightarrow> pystr \<Rightarrow> markup option \<Rightarrow> world \<Rightarrow> pystr option \<times> world" where
  "send_message e user_id txt rm w =
     (let outcome = env_send e (length (outbox w)) user_id txt rm
      in (outcome,
          w\<lparr>outbox := outbox w @
               [\<lparr>chat_id = user_id, sent_text = txt, reply_markup = rm,
                 delivered = (outcome = None)\<rparr>]\<rparr>))"

definition send_error_text :: "int \<Rightarrow> pystr \<Rightarrow> pystr" where
  "send_error_text user_id e =
     lit ''Error al enviar mensaje a '' @ py_str_int user_id @ lit '': '' @ e"

text \<open>
  The loop over the subscribers, lines 346 to 360: both sends of one subscriber are
  in one \<open>try\<close>, so the second is skipped when the first raises.
\<close>

fun send_to_subscribers :: "env \<Rightarrow> pystr \<Rightarrow> markup \<Rightarrow> int list \<Rightarrow> world \<Rightarrow> world" where
  "send_to_subscribers e message rm [] w = w"
| "send_to_subscribers e message rm (user_id # users) w =
     (let (r1, w1) = send_message e user_id banner None w;
          w3 = (case r1 of
                  Some err \<Rightarrow> log_error (send_error_text user_id err) w1
                | None \<Rightarrow>
                    (let (r2, w2) = send_message e user_id message (Some rm) w1
                     in case r2 of
                          Some err \<Rightarrow> log_error (send_error_text user_id err) w2
                        | None \<Rightarrow> w2))
      in send_to_subscribers e message rm users w3)"

text \<open>
  The loop over the new ids, lines 342 to 345. \<open>format_single_publication\<close> is
  called outside the \<open>try\<close>: an exception of its own ends the cycle.
\<close>

fun notify :: "env \<Rightarrow> pystr list list \<Rightarrow> pystr list \<Rightarrow> world \<Rightarrow> py_error option \<times> world" where
  "notify e vigente_data [] w = (None, w)"
| "notify e vigente_data (pub_id # pub_ids) w =
     (case next_row pub_id vigente_data of
        Inl err \<Rightarrow> (Some err, w)
      | Inr None \<Rightarrow> notify e vigente_data pub_ids w
      | Inr (Some pub_details) \<Rightarrow>
          if pub_details = [] then notify e vigente_data pub_ids w
          else
            (case format_single_publication (env_parse e) (env_now e pub_id) pub_details of
               Inl err \<Rightarrow> (Some err, w)
             | Inr (message, rm) \<Rightarrow>
                 notify e vigente_data pub_ids
                   (send_to_subscribers e message rm (env_iter_users e (subscribers w)) w)))"

text \<open>
  One cycle. The result is the exception that ended it, if any, and the world it
  leaves.
\<close>

definition check_for_new_publications :: "env \<Rightarrow> world \<Rightarrow> py_error option \<times> world" where
  "check_for_new_publications e w =
     (let (current_data, w1) = scrape_page (env_urljoin e) (env_response e) w
      in case filter_vigente current_data of
           Inl err \<Rightarrow> (Some err, w1)
         | Inr vigente_data \<Rightarrow>
             (case row_ids vigente_data of
                Inl err \<Rightarrow> (Some err, w1)
              | Inr ids \<Rightarrow>
                  (let current_publications = set ids;
                       (new_publications, previous) =
                         detect_new current_publications (previous_publications w1);
                       w2 = w1\<lparr>previous_publications := previous\<rparr>
                   in if new_publications \<noteq> {}
                      then notify e vigente_data (env_iter_pubs e new_publications) w2
                      else (None, w2))))"

section \<open>Observations and example inputs\<close>

text \<open>The three globals of a world.\<close>

definition globals_of :: "world \<Rightarrow> int set \<times> pystr set \<times> (pystr \<rightharpoonup> pub_data)" where
  "globals_of w = (subscribers w, previous_publications w, data_cache w)"

text \<open>
  The outcomes of the request on which \<open>scrape_page\<close> logs an error and returns
  early: the \<open>except\<close> branch of lines 61 to 63, and the two missing-structure
  branches of lines 69 to 76.
\<close>

definition fetch_failed :: "response \<Rightarrow> bool" where
  "fetch_failed resp = (case resp of FetchError e \<Rightarrow> True | Body page \<Rightarrow> False)"

definition extraction_failed :: "response \<Rightarrow> bool" where
  "extraction_failed resp =
     (case resp of
        FetchError e \<Rightarrow> False
      | Body (Soup None) \<Rightarrow> True
      | Body (Soup (Some (Table None))) \<Rightarrow> True
      | Body (Soup (Some (Table (Some body)))) \<Rightarrow> False)"

text \<open>A page whose table and body are there, with the given rows.\<close>

definition page_with_rows :: "td list list \<Rightarrow> response" where
  "page_with_rows rows = Body (Soup (Some (Table (Some (TBody rows)))))"

text \<open>
  The chats of the first send of each subscriber (the one without markup), in the
  order of the calls.
\<close>

definition banner_recipients :: "attempt list \<Rightarrow> int list" where
  "banner_recipients calls = map chat_id (filter (\<lambda>a. reply_markup a = None) calls)"

text \<open>
  The chats of the second send (the one with the markup), and the chats of the first
  sends that returned, both in the order of the calls.
\<close>

definition detail_recipients :: "attempt list \<Rightarrow> int list" where
  "detail_recipients calls = map chat_id (filter (\<lambda>a. reply_markup a \<noteq> None) calls)"

definition delivered_banner_recipients :: "attempt list \<Rightarrow> int list" where
  "delivered_banner_recipients calls =
     map chat_id (filter (\<lambda>a. reply_markup a = None \<and> delivered a) calls)"

text \<open>
  The set \<open>current_publications\<close> of line 335, as one cycle computes it from the
  outcome of its request: the first fields of the rows that \<open>filter_vigente\<close> keeps.
\<close>

definition current_publications_of :: "env \<Rightarrow> world \<Rightarrow> pystr set" where
  "current_publications_of e w =
     (case filter_vigente (fst (scrape_page (env_urljoin e) (env_response e) w)) of
        Inl err \<Rightarrow> {}
      | Inr vigente_data \<Rightarrow>
          (case row_ids vigente_data of Inl err \<Rightarrow> {} | Inr ids \<Rightarrow> set ids))"

text \<open>Cells, rows and records to run the functions on.\<close>

definition plain_cell :: "pystr \<Rightarrow> td" where
  "plain_cell t = \<lparr>cell_text = t, a_href = None\<rparr>"

definition ex_cols :: "pystr \<Rightarrow> pystr \<Rightarrow> td list" where
  "ex_cols pub_id st =
     [plain_cell ([32] @ pub_id @ [10]), plain_cell (lit ''Servicio de limpieza''),
      \<lparr>cell_text = lit ''Ver'', a_href = Some (lit ''https://example.org/tdr.pdf'')\<rparr>,
      plain_cell (lit ''2024-05-01 08:00:00''), plain_cell (lit ''2024-05-10 17:00:00''),
      plain_cell st]"

definition ex_short_cols :: "td list" where
  "ex_short_cols = [plain_cell (lit ''No hay datos'')]"

definition ex_record :: "pystr \<Rightarrow> pystr \<Rightarrow> pystr list" where
  "ex_record pub_id st =
     [pub_id, lit ''Servicio de limpieza'', lit ''Ver'', lit ''2024-05-01 08:00:00'',
      lit ''2024-05-10 17:00:00'', st, lit ''https://example.org/tdr.pdf'']"

text \<open>
  The reading of 2024-05-10 17:00:00, and a parser that reads that text as a naive
  datetime, the same text followed by "UTC" as an aware one, and nothing else.
\<close>

definition ex_expires_us :: int where
  "ex_expires_us = 1000000 * (739015 * 86400 + 17 * 3600)"

definition ex_parse :: "pystr \<Rightarrow> datetime option" where
  "ex_parse s =
     (if s = lit ''2024-05-10 17:00:00''
      then Some \<lparr>wall_us = ex_expires_us, utcoffset = None\<rparr>
      else if s = lit ''2024-05-10 17:00:00 UTC''
      then Some \<lparr>wall_us = ex_expires_us, utcoffset = Some 0\<rparr>
      else None)"

text \<open>A send that raises for chat 2 and returns for every other chat.\<close>

definition ex_send :: "nat \<Rightarrow> int \<Rightarrow> pystr \<Rightarrow> markup option \<Rightarrow> pystr option" where
  "ex_send n user_id txt rm = (if user_id = 2 then Some (lit ''Forbidden'') else None)"

text \<open>A clock that reads 2024-05-08 13:50:00.\<close>

definition ex_now_us :: int where
  "ex_now_us = ex_expires_us - 1000000 * (2 * 86400 + 3 * 3600 + 10 * 60)"

definition ex_now :: "pystr \<Rightarrow> int" where
  "ex_now pub_id = ex_now_us"

text \<open>
  What a cycle takes from outside, for a given outcome of the request. The links of
  the example cells are absolute, so \<open>urljoin\<close> is not called on them; plain
  concatenation stands for it. Sets are enumerated in ascending order.
\<close>

definition ex_env :: "response \<Rightarrow> env" where
  "ex_env resp =
     \<lparr>env_urljoin = append, env_response = resp, env_parse = ex_parse,
      env_now = ex_now, env_iter_pubs = sorted_list_of_set,
      env_iter_users = sorted_list_of_set, env_send = ex_send\<rparr>"

definition ex_world :: world where
  "ex_world =
     \<lparr>subscribers = {1, 2, 3}, previous_publications = {lit ''7''},
      data_cache = [lit ''7'' \<mapsto> cache_entry (ex_record (lit ''7'') (lit ''Vigente''))
                                     (lit ''https://example.org/tdr.pdf'')],
      logged = [], outbox = []\<rparr>"


section \<open>The classifier\<close>

text \<open>\<open>py_in\<close> is the search for a contiguous run: some text before, the needle, some text after.\<close>

lemma py_in_iff: "py_in needle hay \<longleftrightarrow> (\<exists>p s. hay = p @ needle @ s)"
proof (induction hay)
  case Nil
  then show ?case by simp
next
  case (Cons c cs)
  have sw: "startswith needle (c # cs) \<longleftrightarrow> (\<exists>s. c # cs = needle @ s)"
    unfolding startswith_def
    by (metis append_eq_conv_conj append_take_drop_id)
  show ?case
  proof
    assume "py_in needle (c # cs)"
    then consider "startswith needle (c # cs)" | "py_in needle cs" by auto
    then show "\<exists>p s. c # cs = p @ needle @ s"
    proof cases
      case 1
      then obtain s where "c # cs = needle @ s" using sw by blast
      then have "c # cs = [] @ needle @ s" by simp
      then show ?thesis by blast
    next
      case 2
      then obtain p s where "cs = p @ needle @ s" using Cons.IH by blast
      then have "c # cs = (c # p) @ needle @ s" by simp
      then show ?thesis by blast
    qed
  next
    assume "\<exists>p s. c # cs = p @ needle @ s"
    then obtain p s where ps: "c # cs = p @ needle @ s" by blast
    show "py_in needle (c # cs)"
    proof (cases p)
      case Nil
      then have "startswith needle (c # cs)" using ps sw by auto
      then show ?thesis by simp
    next
      case (Cons a p')
      then have "cs = p' @ needle @ s" using ps by simp
      then have "py_in needle cs" using Cons.IH by blast
      then show ?thesis by simp
    qed
  qed
qed

lemma filter_vigente_long:
  "\<forall>row \<in> set data. 6 \<le> length row \<Longrightarrow>
   filter_vigente data = Inr (filter (\<lambda>row. py_in (lit ''Vigente'') (row ! 5)) data)"
  by (induction data) auto

text \<open>
  C3. On a list of records (rows that have the status field, index 5),
  \<open>filter_vigente\<close> returns a list: the rows whose status holds the text
  "Vigente" as a contiguous run of the same characters, upper and lower case kept
  apart, in the order of the input and with nothing else. It is a subsequence of the
  input, and a row is in it exactly when it is in the input and its status holds the
  token. The function maps a value to a value, so the input is as it was.
\<close>

theorem filter_vigente_is_pure_filter:
  assumes "\<forall>row \<in> set data. 6 \<le> length row"
  shows "\<exists>out. filter_vigente data = Inr out \<and> subseq out data
           \<and> out = filter (\<lambda>row. \<exists>p s. row ! 5 = p @ lit ''Vigente'' @ s) data
           \<and> (\<forall>row. row \<in> set out \<longleftrightarrow> row \<in> set data \<and> (\<exists>p s. row ! 5 = p @ lit ''Vigente'' @ s))"
proof -
  have "filter_vigente data = Inr (filter (\<lambda>row. \<exists>p s. row ! 5 = p @ lit ''Vigente'' @ s) data)"
    using filter_vigente_long [OF assms] by (simp add: py_in_iff)
  then show ?thesis by auto
qed

theorem filter_vigente_is_pure_filter_witness:
  "filter_vigente [ex_record (lit ''1'') (lit ''No Vigente''),
                   ex_record (lit ''2'') (lit ''vigente''),
                   ex_record (lit ''3'') (lit ''Vigente'')]
     = Inr [ex_record (lit ''1'') (lit ''No Vigente''), ex_record (lit ''3'') (lit ''Vigente'')]
   \<and> subseq [ex_record (lit ''1'') (lit ''No Vigente''), ex_record (lit ''3'') (lit ''Vigente'')]
        [ex_record (lit ''1'') (lit ''No Vigente''), ex_record (lit ''2'') (lit ''vigente''),
         ex_record (lit ''3'') (lit ''Vigente'')]"
proof -
  let ?data = "[ex_record (lit ''1'') (lit ''No Vigente''), ex_record (lit ''2'') (lit ''vigente''),
                ex_record (lit ''3'') (lit ''Vigente'')]"
  have long: "\<forall>row \<in> set ?data. 6 \<le> length row"
    by (simp add: ex_record_def)
  from filter_vigente_is_pure_filter [OF long]
  obtain out where out: "filter_vigente ?data = Inr out" and sub: "subseq out ?data"
    by blast
  have "filter_vigente ?data
          = Inr [ex_record (lit ''1'') (lit ''No Vigente''), ex_record (lit ''3'') (lit ''Vigente'')]"
    by (simp add: ex_record_def lit_def startswith_def)
  with out sub show ?thesis by simp
qed

section \<open>The extractor\<close>

lemma length_cols_text_of: "length (cols_text_of uj cols) = Suc (length cols)"
  by (simp add: cols_text_of_def)

lemma last_cols_text_of: "last (cols_text_of uj cols) = pdf_link_of uj cols"
  by (simp add: cols_text_of_def)

lemma scrape_rows_data:
  "fst (scrape_rows uj rows data cache)
     = data @ map (cols_text_of uj) (filter (\<lambda>cols. 6 \<le> length cols) rows)"
  by (induction rows arbitrary: data cache) (auto simp: Let_def)

lemma scrape_rows_cache:
  "snd (scrape_rows uj rows data cache)
     = cache ++ map_of (rev (map (\<lambda>r. (hd r, cache_entry r (last r)))
                               (map (cols_text_of uj) (filter (\<lambda>cols. 6 \<le> length cols) rows))))"
proof (induction rows arbitrary: data cache)
  case Nil
  then show ?case by simp
next
  case (Cons cols rows)
  show ?case
  proof (cases "length cols < 6")
    case True
    then show ?thesis using Cons.IH by simp
  next
    case False
    then have ne: "cols_text_of uj cols \<noteq> []"
      using length_cols_text_of [of uj cols] by auto
    have hd0: "cols_text_of uj cols ! 0 = hd (cols_text_of uj cols)"
      using ne by (simp add: hd_conv_nth)
    let ?r = "cols_text_of uj cols"
    let ?kv = "\<lambda>r. (hd r, cache_entry r (last r))"
    let ?rest = "map ?kv (map (cols_text_of uj) (filter (\<lambda>cols. 6 \<le> length cols) rows))"
    have "snd (scrape_rows uj (cols # rows) data cache)
            = cache(hd ?r \<mapsto> cache_entry ?r (last ?r)) ++ map_of (rev ?rest)"
      using False Cons.IH by (simp add: Let_def hd0 last_cols_text_of fun_upd_def)
    also have "cache(hd ?r \<mapsto> cache_entry ?r (last ?r)) = cache ++ map_of [?kv ?r]"
      by simp
    also have "cache ++ map_of [?kv ?r] ++ map_of (rev ?rest)
                 = cache ++ map_of (rev ?rest @ [?kv ?r])"
      by (simp only: map_of_append map_add_assoc)
    finally show ?thesis using False by simp
  qed
qed

lemma scrape_page_rows:
  "scrape_page uj (page_with_rows rows) w =
     (map (cols_text_of uj) (filter (\<lambda>cols. 6 \<le> length cols) rows),
      w\<lparr>data_cache :=
           map_of (rev (map (\<lambda>r. (hd r, cache_entry r (last r)))
                            (map (cols_text_of uj) (filter (\<lambda>cols. 6 \<le> length cols) rows))))\<rparr>)"
proof -
  have "scrape_rows uj rows [] Map.empty
          = (fst (scrape_rows uj rows [] Map.empty), snd (scrape_rows uj rows [] Map.empty))"
    by simp
  then show ?thesis
    unfolding scrape_rows_data scrape_rows_cache
    by (simp add: scrape_page_def page_with_rows_def)
qed

lemma scrape_page_fetch_error:
  "scrape_page uj (FetchError msg) w =
     ([], w\<lparr>data_cache := Map.empty,
            logged := logged w @ [lit ''Error al obtener la p'' @ [225] @ lit ''gina: '' @ msg]\<rparr>)"
  by (simp add: scrape_page_def log_error_def)

lemma scrape_page_no_table:
  "scrape_page uj (Body (Soup None)) w =
     ([], w\<lparr>data_cache := Map.empty,
            logged := logged w @
              [lit ''No se encontr'' @ [243] @ lit '' la tabla de publicaciones.'']\<rparr>)"
  by (simp add: scrape_page_def log_error_def)

lemma scrape_page_no_tbody:
  "scrape_page uj (Body (Soup (Some (Table None)))) w =
     ([], w\<lparr>data_cache := Map.empty,
            logged := logged w @
              [lit ''No se encontr'' @ [243] @ lit '' el cuerpo de la tabla de publicaciones.'']\<rparr>)"
  by (simp add: scrape_page_def log_error_def)

lemma response_cases:
  obtains msg where "resp = FetchError msg"
  | "resp = Body (Soup None)"
  | "resp = Body (Soup (Some (Table None)))"
  | rows where "resp = page_with_rows rows"
proof (cases resp)
  case (FetchError msg)
  then show ?thesis using that by blast
next
  case (Body page)
  then show ?thesis
  proof (cases page)
    case (Soup t)
    show ?thesis
    proof (cases t)
      case None
      then show ?thesis using that Body Soup by blast
    next
      case (Some tab)
      then show ?thesis
      proof (cases tab)
        case (Table b)
        show ?thesis
        proof (cases b)
          case None
          then show ?thesis using that Body Soup Some Table by blast
        next
          case (Some tb)
          then show ?thesis
            using that Body Soup \<open>t = Some tab\<close> Table
            by (cases tb) (auto simp: page_with_rows_def)
        qed
      qed
    qed
  qed
qed


lemma ex_cols_text:
  "cols_text_of uj (ex_cols pub_id st)
     = [strip ([32] @ pub_id @ [10]), lit ''Servicio de limpieza'', lit ''Ver'',
        lit ''2024-05-01 08:00:00'', lit ''2024-05-10 17:00:00'', strip st,
        lit ''https://example.org/tdr.pdf'']"
  by (simp add: cols_text_of_def ex_cols_def plain_cell_def pdf_link_of_def strip_def lit_def
      py_isspace_def startswith_def)

lemma strip_examples:
  "strip (32 # lit ''A'' @ [10]) = lit ''A''" "strip (32 # lit ''B'' @ [10]) = lit ''B''"
  "strip (lit ''Vigente'') = lit ''Vigente''" "strip (lit ''No Vigente'') = lit ''No Vigente''"
  by (simp_all add: strip_def lit_def py_isspace_def)


section \<open>The index\<close>


lemma scrape_page_records_long:
  "r \<in> set (fst (scrape_page uj resp w)) \<Longrightarrow> 7 \<le> length r"
  by (cases resp rule: response_cases)
     (auto simp: scrape_page_rows scrape_page_fetch_error scrape_page_no_table
        scrape_page_no_tbody length_cols_text_of)




section \<open>What a cycle keeps\<close>

lemma scrape_page_keeps:
  "subscribers (snd (scrape_page uj resp w)) = subscribers w"
  "previous_publications (snd (scrape_page uj resp w)) = previous_publications w"
  "outbox (snd (scrape_page uj resp w)) = outbox w"
  by (cases resp rule: response_cases,
      simp_all add: scrape_page_rows scrape_page_fetch_error scrape_page_no_table
        scrape_page_no_tbody)+

lemma send_message_keeps:
  "subscribers (snd (send_message e u t rm w)) = subscribers w"
  "previous_publications (snd (send_message e u t rm w)) = previous_publications w"
  "data_cache (snd (send_message e u t rm w)) = data_cache w"
  by (simp_all add: send_message_def Let_def)

lemma log_error_keeps:
  "subscribers (log_error m w) = subscribers w"
  "previous_publications (log_error m w) = previous_publications w"
  "data_cache (log_error m w) = data_cache w"
  "outbox (log_error m w) = outbox w"
  by (simp_all add: log_error_def)

lemma send_to_subscribers_keeps:
  "subscribers (send_to_subscribers e m rm users w) = subscribers w
   \<and> previous_publications (send_to_subscribers e m rm users w) = previous_publications w
   \<and> data_cache (send_to_subscribers e m rm users w) = data_cache w"
proof (induction users arbitrary: w)
  case Nil
  then show ?case by simp
next
  case (Cons u users)
  show ?case
    by (simp add: Cons.IH Let_def split_beta send_message_keeps log_error_keeps
        split: option.splits)
qed

lemma notify_keeps:
  "subscribers (snd (notify e vig ids w)) = subscribers w
   \<and> previous_publications (snd (notify e vig ids w)) = previous_publications w
   \<and> data_cache (snd (notify e vig ids w)) = data_cache w"
proof (induction ids arbitrary: w)
  case Nil
  then show ?case by simp
next
  case (Cons p ids)
  show ?case
    by (simp add: Cons.IH send_to_subscribers_keeps split: sum.splits option.splits prod.splits)
qed

lemma cycle_previous:
  "previous_publications (snd (check_for_new_publications e w))
     = snd (detect_new (current_publications_of e w) (previous_publications w))"
proof -
  obtain data w1 where sp: "scrape_page (env_urljoin e) (env_response e) w = (data, w1)"
    by (cases "scrape_page (env_urljoin e) (env_response e) w") auto
  have w1: "previous_publications w1 = previous_publications w"
    using scrape_page_keeps(2) [of "env_urljoin e" "env_response e" w] sp by simp
  show ?thesis
    by (simp add: check_for_new_publications_def current_publications_of_def sp w1 Let_def
        detect_new_def notify_keeps split: sum.splits)
qed

lemma failed_simps:
  "fetch_failed (FetchError msg)" "\<not> fetch_failed (Body page)"
  "\<not> fetch_failed (page_with_rows rows)"
  "\<not> extraction_failed (FetchError msg)" "extraction_failed (Body (Soup None))"
  "extraction_failed (Body (Soup (Some (Table None))))"
  "\<not> extraction_failed (page_with_rows rows)"
  by (simp_all add: fetch_failed_def extraction_failed_def page_with_rows_def)

lemma cycle_failed:
  assumes "fetch_failed (env_response e) \<or> extraction_failed (env_response e)"
  shows "check_for_new_publications e w
           = (None, snd (scrape_page (env_urljoin e) (env_response e) w))
    \<and> fst (scrape_page (env_urljoin e) (env_response e) w) = []
    \<and> data_cache (snd (scrape_page (env_urljoin e) (env_response e) w)) = Map.empty
    \<and> (\<exists>msg. logged (snd (scrape_page (env_urljoin e) (env_response e) w)) = logged w @ [msg])"
  using assms
  by (cases "env_response e" rule: response_cases)
     (simp_all add: check_for_new_publications_def scrape_page_fetch_error scrape_page_no_table
        scrape_page_no_tbody failed_simps detect_new_def)

lemma ex_env_simps:
  "env_urljoin (ex_env resp) = append" "env_response (ex_env resp) = resp"
  "env_parse (ex_env resp) = ex_parse" "env_now (ex_env resp) = ex_now"
  "env_iter_pubs (ex_env resp) = sorted_list_of_set"
  "env_iter_users (ex_env resp) = sorted_list_of_set" "env_send (ex_env resp) = ex_send"
  by (simp_all add: ex_env_def)

text \<open>
  C2, as the code has it. A cycle whose request fails, or whose page lacks the table
  or its body, ends without an exception and sends nothing;
  \<open>previous_publications\<close> and \<open>subscribers\<close> are as before the cycle. The
  cache is not as before: \<open>scrape_page\<close> empties it before the request, so it is
  empty after the cycle, whatever it held. One error message is logged.
\<close>

theorem failed_cycle_state:
  assumes "fetch_failed (env_response e) \<or> extraction_failed (env_response e)"
  shows "fst (check_for_new_publications e w) = None
         \<and> previous_publications (snd (check_for_new_publications e w)) = previous_publications w
         \<and> subscribers (snd (check_for_new_publications e w)) = subscribers w
         \<and> outbox (snd (check_for_new_publications e w)) = outbox w
         \<and> data_cache (snd (check_for_new_publications e w)) = Map.empty
         \<and> (\<exists>msg. logged (snd (check_for_new_publications e w)) = logged w @ [msg])"
  using cycle_failed [OF assms, of w] by (simp add: scrape_page_keeps)

theorem failed_cycle_state_witness:
  "fetch_failed (FetchError (lit ''timeout''))
   \<and> previous_publications (snd (check_for_new_publications (ex_env (FetchError (lit ''timeout''))) ex_world))
       = {lit ''7''}
   \<and> data_cache (snd (check_for_new_publications (ex_env (FetchError (lit ''timeout''))) ex_world))
       = Map.empty"
proof -
  have f: "fetch_failed (env_response (ex_env (FetchError (lit ''timeout''))))
           \<or> extraction_failed (env_response (ex_env (FetchError (lit ''timeout''))))"
    by (simp add: ex_env_simps failed_simps)
  show ?thesis
    using failed_cycle_state [OF f, of ex_world]
    by (simp add: failed_simps ex_world_def)
qed

text \<open>
  The claim that the state after such a cycle is the state before it fails: a cache
  with an entry for publication 7 is empty after a cycle whose request failed.
\<close>

theorem failed_cycle_resets_cache:
  "data_cache (snd (check_for_new_publications (ex_env (FetchError (lit ''timeout''))) ex_world))
     \<noteq> data_cache ex_world"
proof -
  have "check_for_new_publications (ex_env (FetchError (lit ''timeout''))) ex_world
          = (None, snd (scrape_page append (FetchError (lit ''timeout'')) ex_world))"
    by (simp add: check_for_new_publications_def ex_env_simps scrape_page_fetch_error
        detect_new_def)
  then have "data_cache (snd (check_for_new_publications (ex_env (FetchError (lit ''timeout''))) ex_world))
               (lit ''7'') = None"
    by (simp add: scrape_page_fetch_error)
  moreover have "data_cache ex_world (lit ''7'') \<noteq> None"
    by (simp add: ex_world_def)
  ultimately show ?thesis by metis
qed

text \<open>
  C9, as the code has it. When the table or its body is missing, \<open>scrape_page\<close>
  logs one error message and returns the empty list. What it returns and the globals
  it leaves are those of a page whose table is there and has no rows: the caller
  cannot tell the two apart. Only the log differs, which has no entry for the empty
  table.
\<close>

theorem missing_table_logged_only:
  assumes "extraction_failed resp"
  shows "fst (scrape_page uj resp w) = []
         \<and> fst (scrape_page uj resp w) = fst (scrape_page uj (page_with_rows []) w)
         \<and> globals_of (snd (scrape_page uj resp w))
             = globals_of (snd (scrape_page uj (page_with_rows []) w))
         \<and> outbox (snd (scrape_page uj resp w)) = outbox (snd (scrape_page uj (page_with_rows []) w))
         \<and> logged (snd (scrape_page uj (page_with_rows []) w)) = logged w
         \<and> (\<exists>msg. logged (snd (scrape_page uj resp w)) = logged w @ [msg])"
  using assms
  by (cases resp rule: response_cases)
     (simp_all add: scrape_page_rows scrape_page_fetch_error scrape_page_no_table
        scrape_page_no_tbody failed_simps globals_of_def)

theorem missing_table_logged_only_witness:
  "extraction_failed (Body (Soup None))
   \<and> fst (scrape_page append (Body (Soup None)) ex_world) = []
   \<and> logged (snd (scrape_page append (Body (Soup None)) ex_world))
       = [lit ''No se encontr'' @ [243] @ lit '' la tabla de publicaciones.'']
   \<and> logged (snd (scrape_page append (page_with_rows []) ex_world)) = []"
proof -
  have f: "extraction_failed (Body (Soup None))"
    by (simp add: failed_simps)
  show ?thesis
    using missing_table_logged_only [OF f, of append ex_world]
    by (simp add: f scrape_page_no_table ex_world_def)
qed

text \<open>
  The claim that the caller can tell a missing table from an empty one fails: the
  value returned and the globals are equal.
\<close>

theorem missing_table_same_as_empty_table:
  "fst (scrape_page append (Body (Soup None)) ex_world)
     = fst (scrape_page append (page_with_rows []) ex_world)
   \<and> globals_of (snd (scrape_page append (Body (Soup None)) ex_world))
       = globals_of (snd (scrape_page append (page_with_rows []) ex_world))"
  by (simp add: scrape_page_rows scrape_page_no_table globals_of_def)

section \<open>The diff\<close>

lemma row_ids_nonempty:
  "\<forall>row \<in> set rows. row \<noteq> [] \<Longrightarrow> row_ids rows = Inr (map hd rows)"
proof (induction rows)
  case Nil
  then show ?case by simp
next
  case (Cons r rows)
  then obtain x xs where "r = x # xs" by (cases r) auto
  then show ?case using Cons by simp
qed

lemma cycle_vigente:
  obtains data w1 vig where
    "scrape_page (env_urljoin e) (env_response e) w = (data, w1)"
    "filter_vigente data = Inr vig" "row_ids vig = Inr (map hd vig)"
    "\<forall>row \<in> set vig. 7 \<le> length row" "current_publications_of e w = hd ` set vig"
    "set vig \<subseteq> set data"
proof -
  obtain data w1 where sp: "scrape_page (env_urljoin e) (env_response e) w = (data, w1)"
    by (cases "scrape_page (env_urljoin e) (env_response e) w") auto
  have long: "\<forall>row \<in> set data. 7 \<le> length row"
    using scrape_page_records_long [of _ "env_urljoin e" "env_response e" w] sp by auto
  then have long6: "\<forall>row \<in> set data. 6 \<le> length row" by auto
  let ?vig = "filter (\<lambda>row. py_in (lit ''Vigente'') (row ! 5)) data"
  have fv: "filter_vigente data = Inr ?vig"
    using filter_vigente_long [OF long6] .
  have vlong: "\<forall>row \<in> set ?vig. 7 \<le> length row" using long by auto
  then have "\<forall>row \<in> set ?vig. row \<noteq> []" by auto
  then have ri: "row_ids ?vig = Inr (map hd ?vig)" by (rule row_ids_nonempty)
  have cur: "current_publications_of e w = hd ` set ?vig"
    by (simp add: current_publications_of_def sp fv ri)
  have sub: "set ?vig \<subseteq> set data" by auto
  show ?thesis using that [OF sp fv ri vlong cur sub] .
qed

lemma ex_page_current:
  "current_publications_of
     (ex_env (page_with_rows [ex_cols (lit ''A'') (lit ''Vigente''), ex_short_cols,
                              ex_cols (lit ''B'') (lit ''Vigente'')])) ex_world
     = {lit ''A'', lit ''B''}"
proof -
  have len: "length (ex_cols p s) = 6" "length ex_short_cols = 1" for p s
    by (simp_all add: ex_cols_def ex_short_cols_def)
  have v: "py_in (lit ''Vigente'') (lit ''Vigente'')"
    by (simp add: py_in_iff) (metis append_Nil append_Nil2)
  show ?thesis
    by (simp add: current_publications_of_def ex_env_simps scrape_page_rows len ex_cols_text
        strip_examples v) 
qed

text \<open>
  C1. \<open>detect_new\<close> (lines 338 to 341 of \<open>check_for_new_publications\<close>) gives the
  current active ids without the previous ones. When that difference is not empty
  the previous set becomes the whole current set; when it is empty the previous set
  stays. A cycle leaves in \<open>previous_publications\<close> what \<open>detect_new\<close> gives for
  the active ids of its page. From an empty previous set, \<open>{A, B}\<close> gives
  \<open>{A, B}\<close> as new and as the previous set; then \<open>{A}\<close> gives nothing new and
  leaves \<open>{A, B}\<close>; then \<open>{A, B}\<close> gives nothing new again.
\<close>

theorem detect_new_conditional_update:
  "fst (detect_new cur prev) = cur - prev
   \<and> (cur - prev \<noteq> {} \<longrightarrow> snd (detect_new cur prev) = cur)
   \<and> (cur - prev = {} \<longrightarrow> snd (detect_new cur prev) = prev)
   \<and> previous_publications (snd (check_for_new_publications e w))
       = snd (detect_new (current_publications_of e w) (previous_publications w))
   \<and> detect_new {lit ''A'', lit ''B''} {} = ({lit ''A'', lit ''B''}, {lit ''A'', lit ''B''})
   \<and> detect_new {lit ''A''} {lit ''A'', lit ''B''} = ({}, {lit ''A'', lit ''B''})
   \<and> detect_new {lit ''A'', lit ''B''} {lit ''A'', lit ''B''} = ({}, {lit ''A'', lit ''B''})"
  by (simp add: cycle_previous) (simp add: detect_new_def Let_def)

theorem detect_new_conditional_update_witness:
  "{lit ''A'', lit ''B''} - {} \<noteq> ({} :: pystr set)
   \<and> snd (detect_new {lit ''A'', lit ''B''} {}) = {lit ''A'', lit ''B''}
   \<and> {lit ''A''} - {lit ''A'', lit ''B''} = ({} :: pystr set)
   \<and> snd (detect_new {lit ''A''} {lit ''A'', lit ''B''}) = {lit ''A'', lit ''B''}
   \<and> previous_publications ex_world = {lit ''7''}
   \<and> previous_publications (snd (check_for_new_publications
        (ex_env (page_with_rows [ex_cols (lit ''A'') (lit ''Vigente''), ex_short_cols,
                                 ex_cols (lit ''B'') (lit ''Vigente'')])) ex_world))
       = {lit ''A'', lit ''B''}"
proof -
  let ?e = "ex_env (page_with_rows [ex_cols (lit ''A'') (lit ''Vigente''), ex_short_cols,
                                    ex_cols (lit ''B'') (lit ''Vigente'')])"
  have p: "previous_publications ex_world = {lit ''7''}" by (simp add: ex_world_def)
  have ne: "lit ''A'' \<noteq> lit ''7''" "lit ''A'' \<noteq> lit ''B''" by (simp_all add: lit_def)
  have d: "snd (detect_new {lit ''A'', lit ''B''} {lit ''7''}) = {lit ''A'', lit ''B''}"
    using detect_new_conditional_update [of "{lit ''A'', lit ''B''}" "{lit ''7''}" ?e ex_world] ne
    by auto
  show ?thesis
    using detect_new_conditional_update [of "{lit ''A'', lit ''B''}" "{}" ?e ex_world]
          detect_new_conditional_update [of "{lit ''A''}" "{lit ''A'', lit ''B''}" ?e ex_world]
          d p
    by (simp add: ex_page_current)
qed

section \<open>The remaining time\<close>

lemma remaining_decomposition:
  fixes delta :: int
  assumes "0 \<le> delta"
  defines "days \<equiv> delta div 86400000000"
      and "seconds \<equiv> (delta mod 86400000000) div 1000000"
  defines "hours \<equiv> seconds div 3600" and "minutes \<equiv> (seconds mod 3600) div 60"
  shows "0 \<le> days \<and> 0 \<le> hours \<and> hours < 24 \<and> 0 \<le> minutes \<and> minutes < 60
         \<and> ((days * 24 + hours) * 60 + minutes) * 60000000 \<le> delta
         \<and> delta < ((days * 24 + hours) * 60 + minutes + 1) * 60000000"
proof -
  define r where "r = delta mod 86400000000"
  define us where "us = r mod 1000000"
  define rem where "rem = seconds mod 3600"
  define s where "s = rem mod 60"
  have d: "delta = days * 86400000000 + r" and r: "0 \<le> r" "r < 86400000000"
    unfolding days_def r_def by simp_all
  have sec: "r = seconds * 1000000 + us" and us: "0 \<le> us" "us < 1000000"
    unfolding seconds_def us_def r_def by simp_all
  have h: "seconds = hours * 3600 + rem" and rem: "0 \<le> rem" "rem < 3600"
    unfolding hours_def rem_def by simp_all
  have m: "rem = minutes * 60 + s" and s: "0 \<le> s" "s < 60"
    unfolding minutes_def s_def rem_def by simp_all
  have days0: "0 \<le> days" unfolding days_def using assms(1) by (simp add: pos_imp_zdiv_nonneg_iff)
  have sec0: "0 \<le> seconds" using sec us r by linarith
  have sec1: "seconds < 86400" using sec us r by linarith
  have hours0: "0 \<le> hours" using h rem sec0 by linarith
  have hours1: "hours < 24" using h rem sec1 by linarith
  have min0: "0 \<le> minutes" using m s rem by linarith
  have min1: "minutes < 60" using m s rem by linarith
  have total: "delta = ((days * 24 + hours) * 60 + minutes) * 60000000 + (s * 1000000 + us)"
    using d sec h m by (simp add: algebra_simps)
  have lo: "0 \<le> s * 1000000 + us" using s us by simp
  have hi: "s * 1000000 + us < 60000000" using s us by linarith
  have low: "((days * 24 + hours) * 60 + minutes) * 60000000 \<le> delta"
    using total lo by linarith
  have up: "delta < ((days * 24 + hours) * 60 + minutes + 1) * 60000000"
    using total hi by (simp add: algebra_simps)
  show ?thesis using days0 hours0 hours1 min0 min1 low up by simp
qed

lemma available_time_naive:
  assumes "utcoffset d = None"
  shows "available_time (Some d) now =
     (let delta = max 0 (wall_us d - now);
          days = delta div 86400000000;
          seconds = (delta mod 86400000000) div 1000000
      in Inr (py_str_int days @ lit '' d'' @ [237] @ lit ''as, '' @ py_str_int (seconds div 3600)
              @ lit '' horas, '' @ py_str_int ((seconds mod 3600) div 60) @ lit '' minutos''))"
  using assms by (simp add: available_time_def Let_def max_def)

lemma py_str_int_small:
  "py_str_int 0 = lit ''0''" "py_str_int 2 = lit ''2''" "py_str_int 3 = lit ''3''"
  "py_str_int 10 = lit ''10''"
  by (simp_all add: py_str_int_def digits.simps lit_def)

text \<open>
  C6, as the code has it. For a row of seven fields or more: when the expiry text
  does not parse, the message reports "Desconocido" and the function returns. When it
  parses to a naive datetime, the message shows days, hours and minutes, with hours
  below 24 and minutes below 60, that are the whole minutes of
  \<open>max(0, expires - now)\<close>; 2 days 3 hours 10 minutes ahead gives "2 dias, 3 horas,
  10 minutos" (with the accent), and an expiry that has passed gives zeros.
\<close>

theorem format_remaining_time:
  assumes "7 \<le> length row"
  shows "(parse (row ! 4) = None \<longrightarrow>
            format_single_publication parse now row
              = Inr (message_text row (lit ''Desconocido''), [buttons_of row]))
         \<and> (\<forall>d. parse (row ! 4) = Some d \<and> utcoffset d = None \<longrightarrow>
              (\<exists>days hours minutes.
                 format_single_publication parse now row
                   = Inr (message_text row
                            (py_str_int days @ lit '' d'' @ [237] @ lit ''as, '' @ py_str_int hours
                             @ lit '' horas, '' @ py_str_int minutes @ lit '' minutos''),
                          [buttons_of row])
                 \<and> 0 \<le> days \<and> 0 \<le> hours \<and> hours < 24 \<and> 0 \<le> minutes \<and> minutes < 60
                 \<and> ((days * 24 + hours) * 60 + minutes) * 60000000 \<le> max 0 (wall_us d - now)
                 \<and> max 0 (wall_us d - now) < ((days * 24 + hours) * 60 + minutes + 1) * 60000000))
         \<and> (\<forall>d. parse (row ! 4) = Some d \<and> utcoffset d = None
                  \<and> wall_us d - now = 1000000 * (2 * 86400 + 3 * 3600 + 10 * 60) \<longrightarrow>
              format_single_publication parse now row
                = Inr (message_text row (lit ''2 d'' @ [237] @ lit ''as, 3 horas, 10 minutos''),
                       [buttons_of row]))
         \<and> (\<forall>d. parse (row ! 4) = Some d \<and> utcoffset d = None \<and> wall_us d \<le> now \<longrightarrow>
              format_single_publication parse now row
                = Inr (message_text row (lit ''0 d'' @ [237] @ lit ''as, 0 horas, 0 minutos''),
                       [buttons_of row]))"
proof (intro conjI allI impI)
  assume "parse (row ! 4) = None"
  then show "format_single_publication parse now row
               = Inr (message_text row (lit ''Desconocido''), [buttons_of row])"
    using assms by (simp add: format_single_publication_def available_time_def)
next
  fix d
  assume a: "parse (row ! 4) = Some d \<and> utcoffset d = None"
  define delta where "delta = max 0 (wall_us d - now)"
  define days where "days = delta div 86400000000"
  define seconds where "seconds = (delta mod 86400000000) div 1000000"
  define hours where "hours = seconds div 3600"
  define minutes where "minutes = (seconds mod 3600) div 60"
  have "0 \<le> delta" unfolding delta_def by simp
  from remaining_decomposition [OF this]
  have bounds: "0 \<le> days \<and> 0 \<le> hours \<and> hours < 24 \<and> 0 \<le> minutes \<and> minutes < 60
         \<and> ((days * 24 + hours) * 60 + minutes) * 60000000 \<le> delta
         \<and> delta < ((days * 24 + hours) * 60 + minutes + 1) * 60000000"
    unfolding days_def seconds_def hours_def minutes_def .
  have "format_single_publication parse now row
          = Inr (message_text row
                   (py_str_int days @ lit '' d'' @ [237] @ lit ''as, '' @ py_str_int hours
                    @ lit '' horas, '' @ py_str_int minutes @ lit '' minutos''),
                 [buttons_of row])"
    using assms a
    by (simp add: format_single_publication_def available_time_naive Let_def delta_def days_def
        seconds_def hours_def minutes_def)
  with bounds show "\<exists>days hours minutes.
       format_single_publication parse now row
         = Inr (message_text row
                  (py_str_int days @ lit '' d'' @ [237] @ lit ''as, '' @ py_str_int hours
                   @ lit '' horas, '' @ py_str_int minutes @ lit '' minutos''),
                [buttons_of row])
       \<and> 0 \<le> days \<and> 0 \<le> hours \<and> hours < 24 \<and> 0 \<le> minutes \<and> minutes < 60
       \<and> ((days * 24 + hours) * 60 + minutes) * 60000000 \<le> max 0 (wall_us d - now)
       \<and> max 0 (wall_us d - now) < ((days * 24 + hours) * 60 + minutes + 1) * 60000000"
    unfolding delta_def by blast
next
  fix d
  assume a: "parse (row ! 4) = Some d \<and> utcoffset d = None
             \<and> wall_us d - now = 1000000 * (2 * 86400 + 3 * 3600 + 10 * 60)"
  then show "format_single_publication parse now row
       = Inr (message_text row (lit ''2 d'' @ [237] @ lit ''as, 3 horas, 10 minutos''),
              [buttons_of row])"
    using assms
    by (simp add: format_single_publication_def available_time_naive Let_def py_str_int_small
        lit_def)
next
  fix d
  assume a: "parse (row ! 4) = Some d \<and> utcoffset d = None \<and> wall_us d \<le> now"
  then have "max 0 (wall_us d - now) = 0" by simp
  then show "format_single_publication parse now row
       = Inr (message_text row (lit ''0 d'' @ [237] @ lit ''as, 0 horas, 0 minutos''),
              [buttons_of row])"
    using assms a
    by (simp add: format_single_publication_def available_time_naive Let_def py_str_int_small
        lit_def)
qed

theorem format_remaining_time_witness:
  "format_single_publication ex_parse ex_now_us (ex_record (lit ''A'') (lit ''Vigente''))
     = Inr (message_text (ex_record (lit ''A'') (lit ''Vigente''))
              (lit ''2 d'' @ [237] @ lit ''as, 3 horas, 10 minutos''),
            [buttons_of (ex_record (lit ''A'') (lit ''Vigente''))])
   \<and> format_single_publication ex_parse (ex_expires_us + 1)
         (ex_record (lit ''A'') (lit ''Vigente''))
     = Inr (message_text (ex_record (lit ''A'') (lit ''Vigente''))
              (lit ''0 d'' @ [237] @ lit ''as, 0 horas, 0 minutos''),
            [buttons_of (ex_record (lit ''A'') (lit ''Vigente''))])
   \<and> format_single_publication ex_parse ex_now_us
         ((ex_record (lit ''A'') (lit ''Vigente''))[4 := lit ''---''])
     = Inr (message_text ((ex_record (lit ''A'') (lit ''Vigente''))[4 := lit ''---''])
              (lit ''Desconocido''),
            [buttons_of ((ex_record (lit ''A'') (lit ''Vigente''))[4 := lit ''---''])])"
proof -
  let ?row = "ex_record (lit ''A'') (lit ''Vigente'')"
  let ?bad = "(ex_record (lit ''A'') (lit ''Vigente''))[4 := lit ''---'']"
  let ?d = "\<lparr>wall_us = ex_expires_us, utcoffset = None\<rparr>"
  have len: "7 \<le> length ?row" "7 \<le> length ?bad" by (simp_all add: ex_record_def)
  have p: "ex_parse (?row ! 4) = Some ?d \<and> utcoffset ?d = None
           \<and> wall_us ?d - ex_now_us = 1000000 * (2 * 86400 + 3 * 3600 + 10 * 60)"
    by (simp add: ex_record_def ex_parse_def ex_now_us_def)
  have q: "ex_parse (?row ! 4) = Some ?d \<and> utcoffset ?d = None
           \<and> wall_us ?d \<le> ex_expires_us + 1"
    by (simp add: ex_record_def ex_parse_def)
  have n: "ex_parse (?bad ! 4) = None"
    by (simp add: ex_record_def ex_parse_def lit_def)
  show ?thesis
    using format_remaining_time [OF len(1), of ex_parse ex_now_us] p
          format_remaining_time [OF len(1), of ex_parse "ex_expires_us + 1"] q
          format_remaining_time [OF len(2), of ex_parse ex_now_us] n
    by blast
qed

text \<open>
  The claim for every expiry that parses fails: when the parsed datetime is
  timezone-aware, as for an expiry text that names a time zone, subtracting the naive
  \<open>datetime.now()\<close> raises \<open>TypeError\<close> and the function returns no message.
\<close>

theorem format_aware_expiry_raises:
  "ex_parse ((ex_record (lit ''A'') (lit ''Vigente''))[4 := lit ''2024-05-10 17:00:00 UTC''] ! 4)
     = Some \<lparr>wall_us = ex_expires_us, utcoffset = Some 0\<rparr>
   \<and> format_single_publication ex_parse ex_now_us
         ((ex_record (lit ''A'') (lit ''Vigente''))[4 := lit ''2024-05-10 17:00:00 UTC''])
       = Inl TypeError"
proof -
  have p: "ex_parse (lit ''2024-05-10 17:00:00 UTC'')
             = Some \<lparr>wall_us = ex_expires_us, utcoffset = Some 0\<rparr>"
    by (simp add: ex_parse_def lit_def)
  show ?thesis
    by (simp add: ex_record_def p format_single_publication_def available_time_def)
qed

section \<open>The fan-out\<close>

lemma banner_recipients_append:
  "banner_recipients (xs @ ys) = banner_recipients xs @ banner_recipients ys"
  by (simp add: banner_recipients_def)

lemma send_to_subscribers_outbox:
  "\<exists>new. outbox (send_to_subscribers e m rm users w) = outbox w @ new
         \<and> banner_recipients new = users"
proof (induction users arbitrary: w)
  case Nil
  then show ?case by (simp add: banner_recipients_def)
next
  case (Cons u users)
  let ?a1 = "\<lparr>chat_id = u, sent_text = banner, reply_markup = None,
               delivered = (env_send e (length (outbox w)) u banner None = None)\<rparr>"
  let ?w1 = "snd (send_message e u banner None w)"
  obtain w3 where step: "send_to_subscribers e m rm (u # users) w = send_to_subscribers e m rm users w3"
    and ob: "\<exists>tail. outbox w3 = outbox w @ ?a1 # tail \<and> banner_recipients tail = []"
  proof (cases "env_send e (length (outbox w)) u banner None")
    case None
    let ?w2 = "snd (send_message e u m (Some rm) ?w1)"
    show ?thesis
    proof (cases "fst (send_message e u m (Some rm) ?w1)")
      case n2: None
      show ?thesis
      proof (rule that [of ?w2])
        show "send_to_subscribers e m rm (u # users) w = send_to_subscribers e m rm users ?w2"
          using None n2 by (simp add: split_beta Let_def send_message_def)
        show "\<exists>tail. outbox ?w2 = outbox w @ ?a1 # tail \<and> banner_recipients tail = []"
          using None by (simp add: send_message_def Let_def banner_recipients_def)
      qed
    next
      case s2: (Some err)
      show ?thesis
      proof (rule that [of "log_error (send_error_text u err) ?w2"])
        show "send_to_subscribers e m rm (u # users) w
                = send_to_subscribers e m rm users (log_error (send_error_text u err) ?w2)"
          using None s2 by (simp add: split_beta Let_def send_message_def)
        show "\<exists>tail. outbox (log_error (send_error_text u err) ?w2) = outbox w @ ?a1 # tail
                \<and> banner_recipients tail = []"
          using None by (simp add: send_message_def Let_def banner_recipients_def log_error_def)
      qed
    qed
  next
    case (Some err)
    show ?thesis
    proof (rule that [of "log_error (send_error_text u err) ?w1"])
      show "send_to_subscribers e m rm (u # users) w
              = send_to_subscribers e m rm users (log_error (send_error_text u err) ?w1)"
        using Some by (simp add: split_beta Let_def send_message_def)
      show "\<exists>tail. outbox (log_error (send_error_text u err) ?w1) = outbox w @ ?a1 # tail
              \<and> banner_recipients tail = []"
        using Some by (simp add: send_message_def Let_def banner_recipients_def log_error_def)
    qed
  qed
  from ob obtain tail where tail: "outbox w3 = outbox w @ ?a1 # tail" "banner_recipients tail = []"
    by blast
  from Cons.IH [of w3] obtain new where new: "outbox (send_to_subscribers e m rm users w3) = outbox w3 @ new"
    "banner_recipients new = users" by blast
  have "outbox (send_to_subscribers e m rm (u # users) w) = outbox w @ (?a1 # tail @ new)"
    using step tail new by simp
  moreover have "banner_recipients (?a1 # tail @ new) = u # users"
    using tail(2) new(2) banner_recipients_append [of "?a1 # tail" new]
    by (simp add: banner_recipients_def)
  ultimately show ?case by blast
qed

lemma next_row_found:
  assumes "\<forall>row \<in> set vig. row \<noteq> []" and "p \<in> hd ` set vig"
  shows "\<exists>row. next_row p vig = Inr (Some row) \<and> row \<in> set vig \<and> hd row = p"
  using assms
proof (induction vig)
  case Nil
  then show ?case by simp
next
  case (Cons r vig)
  then obtain x xs where r: "r = x # xs" by (cases r) auto
  show ?case
  proof (cases "x = p")
    case True
    then show ?thesis using r by simp
  next
    case False
    then have "p \<in> hd ` set vig" using Cons.prems(2) r by auto
    then show ?thesis using Cons.IH Cons.prems(1) r False by auto
  qed
qed

lemma format_succeeds:
  assumes "7 \<le> length row" and "\<forall>d. parse (row ! 4) = Some d \<longrightarrow> utcoffset d = None"
  shows "\<exists>avail. format_single_publication parse now row
           = Inr (message_text row avail, [buttons_of row])"
proof (cases "parse (row ! 4)")
  case None
  then have "format_single_publication parse now row
      = Inr (message_text row (lit ''Desconocido''), [buttons_of row])"
    using assms(1) by (simp add: format_single_publication_def available_time_def)
  then show ?thesis by blast
next
  case (Some d)
  then have "utcoffset d = None" using assms(2) by simp
  then have "\<exists>avail. available_time (Some d) now = Inr avail"
    by (simp add: available_time_def Let_def)
  then obtain avail where "available_time (Some d) now = Inr avail" by blast
  then have "format_single_publication parse now row
      = Inr (message_text row avail, [buttons_of row])"
    using assms(1) Some by (simp add: format_single_publication_def)
  then show ?thesis by blast
qed

text \<open>
  The loop over the new ids, on rows as \<open>scrape_page\<close> builds them: whatever the
  sends do, it ends without an exception and starts the first send once for every
  id and every subscriber.
\<close>

lemma notify_attempts_every_subscriber:
  assumes "\<forall>row \<in> set vig. 7 \<le> length row"
      and "\<forall>row \<in> set vig. \<forall>d. env_parse e (row ! 4) = Some d \<longrightarrow> utcoffset d = None"
      and "set ids \<subseteq> hd ` set vig"
  shows "fst (notify e vig ids w) = None
         \<and> (\<exists>new. outbox (snd (notify e vig ids w)) = outbox w @ new
                \<and> banner_recipients new
                    = concat (map (\<lambda>pub_id. env_iter_users e (subscribers w)) ids))"
  using assms(3)
proof (induction ids arbitrary: w)
  case Nil
  then show ?case by (simp add: banner_recipients_def)
next
  case (Cons p ids)
  have ne: "\<forall>row \<in> set vig. row \<noteq> []" using assms(1) by auto
  from Cons.prems have p: "p \<in> hd ` set vig" and rest: "set ids \<subseteq> hd ` set vig" by auto
  from next_row_found [OF ne p] obtain row where
    row: "next_row p vig = Inr (Some row)" "row \<in> set vig" by blast
  have rowne: "row \<noteq> []" using ne row(2) by blast
  from format_succeeds [of row "env_parse e" "env_now e p"] assms(1,2) row(2)
  obtain avail where fmt: "format_single_publication (env_parse e) (env_now e p) row
       = Inr (message_text row avail, [buttons_of row])" by blast
  let ?users = "env_iter_users e (subscribers w)"
  let ?w' = "send_to_subscribers e (message_text row avail) [buttons_of row] ?users w"
  have step: "notify e vig (p # ids) w = notify e vig ids ?w'"
    using row(1) rowne fmt by simp
  from send_to_subscribers_outbox [of e "message_text row avail" "[buttons_of row]" ?users w]
  obtain new1 where new1: "outbox ?w' = outbox w @ new1" "banner_recipients new1 = ?users"
    by blast
  have subs: "subscribers ?w' = subscribers w"
    by (simp add: send_to_subscribers_keeps)
  from Cons.IH [OF rest, of ?w'] obtain new2 where
    none: "fst (notify e vig ids ?w') = None" and
    new2: "outbox (snd (notify e vig ids ?w')) = outbox ?w' @ new2"
      "banner_recipients new2 = concat (map (\<lambda>pub_id. env_iter_users e (subscribers ?w')) ids)"
    by blast
  have "outbox (snd (notify e vig (p # ids) w)) = outbox w @ (new1 @ new2)"
    using step new1(1) new2(1) by simp
  moreover have "banner_recipients (new1 @ new2)
      = concat (map (\<lambda>pub_id. env_iter_users e (subscribers w)) (p # ids))"
    using new1(2) new2(2) subs by (simp add: banner_recipients_append)
  ultimately show ?case using step none by auto
qed

lemma notify_send_independent:
  assumes "env_parse e1 = env_parse e2" and "env_now e1 = env_now e2"
      and "env_iter_users e1 = env_iter_users e2"
      and "subscribers w1 = subscribers w2"
      and "banner_recipients (outbox w1) = banner_recipients (outbox w2)"
  shows "fst (notify e1 vig ids w1) = fst (notify e2 vig ids w2)
         \<and> banner_recipients (outbox (snd (notify e1 vig ids w1)))
             = banner_recipients (outbox (snd (notify e2 vig ids w2)))"
  using assms(4,5)
proof (induction ids arbitrary: w1 w2)
  case Nil
  then show ?case by simp
next
  case (Cons p ids)
  show ?case
  proof (cases "next_row p vig")
    case (Inl err)
    then show ?thesis using Cons.prems by simp
  next
    case (Inr found)
    show ?thesis
    proof (cases found)
      case None
      then show ?thesis using Inr Cons.IH [OF Cons.prems] by simp
    next
      case (Some row)
      show ?thesis
      proof (cases "row = []")
        case True
        then show ?thesis using Inr Some Cons.IH [OF Cons.prems] by simp
      next
        case False
        show ?thesis
        proof (cases "format_single_publication (env_parse e2) (env_now e2 p) row")
          case fl: (Inl err)
          then show ?thesis using Inr Some False Cons.prems assms(1,2) by simp
        next
          case (Inr mr)
          obtain m rm where mr: "mr = (m, rm)" by (cases mr) auto
          let ?u = "env_iter_users e2 (subscribers w2)"
          let ?w1 = "send_to_subscribers e1 m rm ?u w1"
          let ?w2 = "send_to_subscribers e2 m rm ?u w2"
          have s1: "notify e1 vig (p # ids) w1 = notify e1 vig ids ?w1"
            using \<open>next_row p vig = Inr found\<close> Some False Inr mr assms(1,2,3) Cons.prems(1)
            by simp
          have s2: "notify e2 vig (p # ids) w2 = notify e2 vig ids ?w2"
            using \<open>next_row p vig = Inr found\<close> Some False Inr mr by simp
          have subs: "subscribers ?w1 = subscribers ?w2"
            using Cons.prems(1) by (simp add: send_to_subscribers_keeps)
          obtain n1 where n1: "outbox ?w1 = outbox w1 @ n1" "banner_recipients n1 = ?u"
            using send_to_subscribers_outbox [of e1 m rm ?u w1] by blast
          obtain n2 where n2: "outbox ?w2 = outbox w2 @ n2" "banner_recipients n2 = ?u"
            using send_to_subscribers_outbox [of e2 m rm ?u w2] by blast
          have ob: "banner_recipients (outbox ?w1) = banner_recipients (outbox ?w2)"
            using n1 n2 Cons.prems(2) by (simp add: banner_recipients_append)
          show ?thesis
            using Cons.IH [OF subs ob] s1 s2 by simp
        qed
      qed
    qed
  qed
qed

lemma cycle_send_independent:
  "fst (check_for_new_publications (e\<lparr>env_send := s\<rparr>) w) = fst (check_for_new_publications e w)
   \<and> banner_recipients (outbox (snd (check_for_new_publications (e\<lparr>env_send := s\<rparr>) w)))
       = banner_recipients (outbox (snd (check_for_new_publications e w)))"
proof -
  obtain data w1 where sp: "scrape_page (env_urljoin e) (env_response e) w = (data, w1)"
    by (cases "scrape_page (env_urljoin e) (env_response e) w") auto
  show ?thesis
  proof (cases "filter_vigente data")
    case (Inl err)
    then show ?thesis by (simp add: check_for_new_publications_def sp)
  next
    case (Inr vig)
    show ?thesis
    proof (cases "row_ids vig")
      case il: (Inl err)
      then show ?thesis using Inr by (simp add: check_for_new_publications_def sp)
    next
      case (Inr ids)
      let ?new = "fst (detect_new (set ids) (previous_publications w1))"
      let ?w2 = "w1\<lparr>previous_publications := snd (detect_new (set ids) (previous_publications w1))\<rparr>"
      have ind: "fst (notify (e\<lparr>env_send := s\<rparr>) vig (env_iter_pubs e ?new) ?w2)
                   = fst (notify e vig (env_iter_pubs e ?new) ?w2)
                 \<and> banner_recipients (outbox (snd (notify (e\<lparr>env_send := s\<rparr>) vig (env_iter_pubs e ?new) ?w2)))
                   = banner_recipients (outbox (snd (notify e vig (env_iter_pubs e ?new) ?w2)))"
        by (rule notify_send_independent) simp_all
      show ?thesis
        using \<open>filter_vigente data = Inr vig\<close> Inr ind
        by (simp add: check_for_new_publications_def sp split_beta Let_def)
    qed
  qed
qed

lemma cycle_fanout:
  assumes naive: "\<forall>row \<in> set (fst (scrape_page (env_urljoin e) (env_response e) w)).
                    \<forall>d. env_parse e (row ! 4) = Some d \<longrightarrow> utcoffset d = None"
      and iter: "set (env_iter_pubs e (current_publications_of e w - previous_publications w))
                   = current_publications_of e w - previous_publications w"
  shows "fst (check_for_new_publications e w) = None
         \<and> (\<exists>new. outbox (snd (check_for_new_publications e w)) = outbox w @ new
                \<and> banner_recipients new
                    = concat (map (\<lambda>pub_id. env_iter_users e (subscribers w))
                        (env_iter_pubs e (current_publications_of e w - previous_publications w))))"
proof -
  obtain data w1 vig where
    sp: "scrape_page (env_urljoin e) (env_response e) w = (data, w1)" and
    fv: "filter_vigente data = Inr vig" and ri: "row_ids vig = Inr (map hd vig)" and
    vlong: "\<forall>row \<in> set vig. 7 \<le> length row" and
    cur: "current_publications_of e w = hd ` set vig" and
    vsub: "set vig \<subseteq> set data"
    by (rule cycle_vigente)
  let ?new = "current_publications_of e w - previous_publications w"
  have keep: "previous_publications w1 = previous_publications w" "subscribers w1 = subscribers w"
    "outbox w1 = outbox w"
    using scrape_page_keeps [of "env_urljoin e" "env_response e" w] sp by simp_all
  show ?thesis
  proof (cases "?new = {}")
    case True
    have "env_iter_pubs e ?new = []" using iter True by (metis set_empty)
    moreover have "check_for_new_publications e w = (None, w1)"
      using True unfolding cur by (simp add: check_for_new_publications_def sp fv ri detect_new_def keep cur)
    ultimately show ?thesis by (simp add: keep banner_recipients_def)
  next
    case False
    let ?w2 = "w1\<lparr>previous_publications := current_publications_of e w\<rparr>"
    have run: "check_for_new_publications e w = notify e vig (env_iter_pubs e ?new) ?w2"
      using False by (simp add: check_for_new_publications_def sp fv ri detect_new_def keep cur)
    have sub: "set (env_iter_pubs e ?new) \<subseteq> hd ` set vig"
      using iter cur by auto
    have nv: "\<forall>row \<in> set vig. \<forall>d. env_parse e (row ! 4) = Some d \<longrightarrow> utcoffset d = None"
      using naive vsub sp by auto
    show ?thesis
      using notify_attempts_every_subscriber [OF vlong nv sub, of ?w2] run
      by (simp add: keep)
  qed
qed

lemma ex_users: "sorted_list_of_set {1, 2, 3 :: int} = [1, 2, 3]"
  by simp

lemma ex_pubs: "sorted_list_of_set {lit ''A'', lit ''B''} = [lit ''A'', lit ''B'']"
  by (simp add: lit_def)

lemma recipients_append:
  "detail_recipients (xs @ ys) = detail_recipients xs @ detail_recipients ys"
  "delivered_banner_recipients (xs @ ys)
     = delivered_banner_recipients xs @ delivered_banner_recipients ys"
  by (simp_all add: detail_recipients_def delivered_banner_recipients_def)

lemma send_to_subscribers_details:
  "\<exists>new. outbox (send_to_subscribers e m rm users w) = outbox w @ new
         \<and> detail_recipients new = delivered_banner_recipients new"
proof (induction users arbitrary: w)
  case Nil
  then show ?case by (simp add: detail_recipients_def delivered_banner_recipients_def)
next
  case (Cons u users)
  let ?w1 = "snd (send_message e u banner None w)"
  obtain w3 where step: "send_to_subscribers e m rm (u # users) w = send_to_subscribers e m rm users w3"
    and ob: "\<exists>head. outbox w3 = outbox w @ head
                \<and> detail_recipients head = delivered_banner_recipients head"
  proof (cases "env_send e (length (outbox w)) u banner None")
    case None
    let ?w2 = "snd (send_message e u m (Some rm) ?w1)"
    show ?thesis
    proof (cases "fst (send_message e u m (Some rm) ?w1)")
      case n2: None
      show ?thesis
      proof (rule that [of ?w2])
        show "send_to_subscribers e m rm (u # users) w = send_to_subscribers e m rm users ?w2"
          using None n2 by (simp add: split_beta Let_def send_message_def)
        show "\<exists>head. outbox ?w2 = outbox w @ head
                \<and> detail_recipients head = delivered_banner_recipients head"
          using None
          by (simp add: send_message_def Let_def detail_recipients_def
              delivered_banner_recipients_def)
      qed
    next
      case s2: (Some err)
      show ?thesis
      proof (rule that [of "log_error (send_error_text u err) ?w2"])
        show "send_to_subscribers e m rm (u # users) w
                = send_to_subscribers e m rm users (log_error (send_error_text u err) ?w2)"
          using None s2 by (simp add: split_beta Let_def send_message_def)
        show "\<exists>head. outbox (log_error (send_error_text u err) ?w2) = outbox w @ head
                \<and> detail_recipients head = delivered_banner_recipients head"
          using None
          by (simp add: send_message_def Let_def detail_recipients_def
              delivered_banner_recipients_def log_error_def)
      qed
    qed
  next
    case (Some err)
    show ?thesis
    proof (rule that [of "log_error (send_error_text u err) ?w1"])
      show "send_to_subscribers e m rm (u # users) w
              = send_to_subscribers e m rm users (log_error (send_error_text u err) ?w1)"
        using Some by (simp add: split_beta Let_def send_message_def)
      show "\<exists>head. outbox (log_error (send_error_text u err) ?w1) = outbox w @ head
              \<and> detail_recipients head = delivered_banner_recipients head"
        using Some
        by (simp add: send_message_def Let_def detail_recipients_def
            delivered_banner_recipients_def log_error_def)
    qed
  qed
  from ob obtain head where head: "outbox w3 = outbox w @ head"
    "detail_recipients head = delivered_banner_recipients head" by blast
  from Cons.IH [of w3] obtain new where new: "outbox (send_to_subscribers e m rm users w3) = outbox w3 @ new"
    "detail_recipients new = delivered_banner_recipients new" by blast
  have "outbox (send_to_subscribers e m rm (u # users) w) = outbox w @ (head @ new)"
    using step head new by simp
  moreover have "detail_recipients (head @ new) = delivered_banner_recipients (head @ new)"
    using head(2) new(2) by (simp add: recipients_append)
  ultimately show ?case by blast
qed

lemma notify_details:
  "\<exists>new. outbox (snd (notify e vig ids w)) = outbox w @ new
         \<and> detail_recipients new = delivered_banner_recipients new"
proof (induction ids arbitrary: w)
  case Nil
  then show ?case by (simp add: detail_recipients_def delivered_banner_recipients_def)
next
  case (Cons p ids)
  have triv: "\<exists>new. outbox w = outbox w @ new
                \<and> detail_recipients new = delivered_banner_recipients new"
    by (simp add: detail_recipients_def delivered_banner_recipients_def)
  show ?case
  proof (cases "next_row p vig")
    case (Inl err)
    then show ?thesis using triv by simp
  next
    case (Inr found)
    show ?thesis
    proof (cases found)
      case None
      then show ?thesis using Inr Cons.IH by simp
    next
      case (Some row)
      show ?thesis
      proof (cases "row = []")
        case True
        then show ?thesis using Inr Some Cons.IH by simp
      next
        case False
        show ?thesis
        proof (cases "format_single_publication (env_parse e) (env_now e p) row")
          case fl: (Inl err)
          then show ?thesis using Inr Some False triv by simp
        next
          case (Inr mr)
          obtain m rm where mr: "mr = (m, rm)" by (cases mr) auto
          let ?w' = "send_to_subscribers e m rm (env_iter_users e (subscribers w)) w"
          have s: "notify e vig (p # ids) w = notify e vig ids ?w'"
            using \<open>next_row p vig = Inr found\<close> Some False Inr mr by simp
          obtain n1 where n1: "outbox ?w' = outbox w @ n1"
            "detail_recipients n1 = delivered_banner_recipients n1"
            using send_to_subscribers_details [of e m rm "env_iter_users e (subscribers w)" w]
            by blast
          obtain n2 where n2: "outbox (snd (notify e vig ids ?w')) = outbox ?w' @ n2"
            "detail_recipients n2 = delivered_banner_recipients n2"
            using Cons.IH [of ?w'] by blast
          have "outbox (snd (notify e vig (p # ids) w)) = outbox w @ (n1 @ n2)"
            using s n1(1) n2(1) by simp
          moreover have "detail_recipients (n1 @ n2) = delivered_banner_recipients (n1 @ n2)"
            using n1(2) n2(2) by (simp add: recipients_append)
          ultimately show ?thesis by blast
        qed
      qed
    qed
  qed
qed

lemma cycle_details:
  "\<exists>new. outbox (snd (check_for_new_publications e w)) = outbox w @ new
         \<and> detail_recipients new = delivered_banner_recipients new"
proof -
  obtain data w1 where sp: "scrape_page (env_urljoin e) (env_response e) w = (data, w1)"
    by (cases "scrape_page (env_urljoin e) (env_response e) w") auto
  have keep: "outbox w1 = outbox w"
    using scrape_page_keeps(3) [of "env_urljoin e" "env_response e" w] sp by simp
  have triv: "\<exists>new. outbox w = outbox w @ new
                \<and> detail_recipients new = delivered_banner_recipients new"
    by (simp add: detail_recipients_def delivered_banner_recipients_def)
  show ?thesis
  proof (cases "filter_vigente data")
    case (Inl err)
    then show ?thesis using triv by (simp add: check_for_new_publications_def sp keep)
  next
    case (Inr vig)
    show ?thesis
    proof (cases "row_ids vig")
      case il: (Inl err)
      then show ?thesis using Inr triv by (simp add: check_for_new_publications_def sp keep)
    next
      case (Inr ids)
      let ?new = "fst (detect_new (set ids) (previous_publications w1))"
      let ?w2 = "w1\<lparr>previous_publications := snd (detect_new (set ids) (previous_publications w1))\<rparr>"
      have ob2: "outbox ?w2 = outbox w" using keep by simp
      show ?thesis
      proof (cases "?new = {}")
        case True
        then show ?thesis
          using \<open>filter_vigente data = Inr vig\<close> Inr triv
          by (simp add: check_for_new_publications_def sp split_beta Let_def keep)
      next
        case False
        then have "check_for_new_publications e w = notify e vig (env_iter_pubs e ?new) ?w2"
          using \<open>filter_vigente data = Inr vig\<close> Inr
          by (simp add: check_for_new_publications_def sp split_beta Let_def)
        then show ?thesis
          using notify_details [of e vig "env_iter_pubs e ?new" ?w2] ob2 by simp
      qed
    qed
  qed
qed

text \<open>
  C7. Whether a send returns or raises has no effect on which sends are started, nor
  on how the cycle ends: with any other outcomes \<open>s\<close> of the send calls, the
  cycle and the loop \<open>notify\<close> end the same way and start the first send of the
  same chats in the same order. The second send of a publication goes to the chats
  whose own first send returned, and to no other. When no expiry text of the page
  parses to an aware datetime and the new ids are enumerated as they are, the cycle
  ends without an exception and starts the first send once for every new id and every
  subscriber, whatever the sends do.
\<close>

theorem delivery_failures_do_not_stop_fanout:
  "fst (check_for_new_publications (e\<lparr>env_send := s\<rparr>) w) = fst (check_for_new_publications e w)
   \<and> banner_recipients (outbox (snd (check_for_new_publications (e\<lparr>env_send := s\<rparr>) w)))
       = banner_recipients (outbox (snd (check_for_new_publications e w)))
   \<and> fst (notify (e\<lparr>env_send := s\<rparr>) vig ids w) = fst (notify e vig ids w)
   \<and> banner_recipients (outbox (snd (notify (e\<lparr>env_send := s\<rparr>) vig ids w)))
       = banner_recipients (outbox (snd (notify e vig ids w)))
   \<and> (\<exists>new. outbox (snd (check_for_new_publications e w)) = outbox w @ new
          \<and> detail_recipients new = delivered_banner_recipients new)
   \<and> ((\<forall>row \<in> set (fst (scrape_page (env_urljoin e) (env_response e) w)).
           \<forall>d. env_parse e (row ! 4) = Some d \<longrightarrow> utcoffset d = None)
        \<and> set (env_iter_pubs e (current_publications_of e w - previous_publications w))
            = current_publications_of e w - previous_publications w
        \<longrightarrow> fst (check_for_new_publications e w) = None
            \<and> (\<exists>new. outbox (snd (check_for_new_publications e w)) = outbox w @ new
                   \<and> banner_recipients new
                       = concat (map (\<lambda>pub_id. env_iter_users e (subscribers w))
                           (env_iter_pubs e
                              (current_publications_of e w - previous_publications w)))))"
proof (intro conjI impI)
  show "fst (check_for_new_publications (e\<lparr>env_send := s\<rparr>) w) = fst (check_for_new_publications e w)"
    using cycle_send_independent by blast
  show "banner_recipients (outbox (snd (check_for_new_publications (e\<lparr>env_send := s\<rparr>) w)))
          = banner_recipients (outbox (snd (check_for_new_publications e w)))"
    using cycle_send_independent by blast
  have n: "fst (notify (e\<lparr>env_send := s\<rparr>) vig ids w) = fst (notify e vig ids w)
           \<and> banner_recipients (outbox (snd (notify (e\<lparr>env_send := s\<rparr>) vig ids w)))
               = banner_recipients (outbox (snd (notify e vig ids w)))"
    by (rule notify_send_independent) simp_all
  show "fst (notify (e\<lparr>env_send := s\<rparr>) vig ids w) = fst (notify e vig ids w)"
    using n by blast
  show "banner_recipients (outbox (snd (notify (e\<lparr>env_send := s\<rparr>) vig ids w)))
          = banner_recipients (outbox (snd (notify e vig ids w)))"
    using n by blast
  show "\<exists>new. outbox (snd (check_for_new_publications e w)) = outbox w @ new
          \<and> detail_recipients new = delivered_banner_recipients new"
    by (rule cycle_details)
next
  assume a: "(\<forall>row \<in> set (fst (scrape_page (env_urljoin e) (env_response e) w)).
           \<forall>d. env_parse e (row ! 4) = Some d \<longrightarrow> utcoffset d = None)
        \<and> set (env_iter_pubs e (current_publications_of e w - previous_publications w))
            = current_publications_of e w - previous_publications w"
  then show "fst (check_for_new_publications e w) = None"
    using cycle_fanout [of e w] by blast
  from a show "\<exists>new. outbox (snd (check_for_new_publications e w)) = outbox w @ new
                   \<and> banner_recipients new
                       = concat (map (\<lambda>pub_id. env_iter_users e (subscribers w))
                           (env_iter_pubs e
                              (current_publications_of e w - previous_publications w)))"
    using cycle_fanout [of e w] by blast
qed

theorem delivery_failures_do_not_stop_fanout_witness:
  "ex_send 0 2 banner None = Some (lit ''Forbidden'')
   \<and> fst (check_for_new_publications
        (ex_env (page_with_rows [ex_cols (lit ''A'') (lit ''Vigente''), ex_short_cols,
                                 ex_cols (lit ''B'') (lit ''Vigente'')])) ex_world) = None
   \<and> banner_recipients (outbox (snd (check_for_new_publications
        (ex_env (page_with_rows [ex_cols (lit ''A'') (lit ''Vigente''), ex_short_cols,
                                 ex_cols (lit ''B'') (lit ''Vigente'')])) ex_world)))
       = [1, 2, 3, 1, 2, 3]"
proof -
  let ?e = "ex_env (page_with_rows [ex_cols (lit ''A'') (lit ''Vigente''), ex_short_cols,
                                    ex_cols (lit ''B'') (lit ''Vigente'')])"
  have len: "length (ex_cols p st) = 6" "length ex_short_cols = 1" for p st
    by (simp_all add: ex_cols_def ex_short_cols_def)
  have at4: "cols_text_of append (ex_cols p st) ! 4 = lit ''2024-05-10 17:00:00''" for p st
    by (simp add: ex_cols_text)
  have naive: "\<forall>row \<in> set (fst (scrape_page (env_urljoin ?e) (env_response ?e) ex_world)).
                 \<forall>d. env_parse ?e (row ! 4) = Some d \<longrightarrow> utcoffset d = None"
    by (auto simp: ex_env_simps scrape_page_rows len at4 ex_parse_def)
  have w: "outbox ex_world = []" "subscribers ex_world = {1, 2, 3}"
    "previous_publications ex_world = {lit ''7''}"
    by (simp_all add: ex_world_def)
  have ne: "lit ''A'' \<noteq> lit ''7''" "lit ''B'' \<noteq> lit ''7''" by (simp_all add: lit_def)
  have new: "current_publications_of ?e ex_world - previous_publications ex_world
               = {lit ''A'', lit ''B''}"
    using ne by (auto simp: ex_page_current w)
  have iter: "set (env_iter_pubs ?e (current_publications_of ?e ex_world - previous_publications ex_world))
                = current_publications_of ?e ex_world - previous_publications ex_world"
    unfolding new by (simp only: ex_env_simps ex_pubs) simp
  have f: "ex_send 0 2 banner None = Some (lit ''Forbidden'')" by (simp add: ex_send_def)
  from delivery_failures_do_not_stop_fanout
         [where e = ?e and s = ex_send and w = ex_world and vig = "[]" and ids = "[]"] naive iter
  have "fst (check_for_new_publications ?e ex_world) = None
        \<and> (\<exists>new. outbox (snd (check_for_new_publications ?e ex_world)) = outbox ex_world @ new
               \<and> banner_recipients new
                   = concat (map (\<lambda>pub_id. env_iter_users ?e (subscribers ex_world))
                       (env_iter_pubs ?e
                          (current_publications_of ?e ex_world - previous_publications ex_world))))"
    by blast
  then show ?thesis
    unfolding new using f by (auto simp: w ex_env_simps ex_users ex_pubs)
qed

section \<open>The subscriber registry\<close>



section \<open>The drive link\<close>

text \<open>
  C5. The link \<open>https://drive.google.com/file/d/XYZ123/view\<close> becomes the download
  link of \<open>XYZ123\<close>, and a link to another host is returned as it is. The id is
  always the fourth piece of the path split at \<open>/\<close>: when \<open>/file/d/XYZ123\<close>
  stands deeper in the path, the download link is made for the piece \<open>file\<close>.
\<close>

theorem convert_drive_url_fixed_position:
  "convert_drive_url unquote (lit ''https://drive.google.com/file/d/XYZ123/view'')
     = Inr (lit ''https://drive.google.com/uc?export=download&id=XYZ123'')
   \<and> convert_drive_url unquote (lit ''https://drive.google.com/a/example.com/file/d/XYZ123/view'')
     = Inr (lit ''https://drive.google.com/uc?export=download&id=file'')
   \<and> convert_drive_url unquote (lit ''https://example.org/tdr.pdf'')
     = Inr (lit ''https://example.org/tdr.pdf'')"
  by (simp add: convert_drive_url_def urlparse_def lit_def split_scheme_def ascii_alpha_def
      scheme_char_def ascii_lower_def uses_params_def splitparams_def split_first_def
      startswith_def py_index_def)

end
